theory Spec2Isabelle
  imports Complex_Main "HOL-Library.Multiset"
begin

section \<open>Numbers and tensors\<close>

text \<open>
  The planner of \<^verbatim>\<open>pmbrl/planner.py\<close> computes on 32-bit floating-point tensors.
  A scalar is modelled as a real number or one of the three special values of the
  format; arithmetic on finite values is exact (no rounding, no overflow, one zero),
  and the special values follow the rules of the format.
\<close>

datatype float = NaN | NInf | Fin real | PInf

fun isnan :: "float \<Rightarrow> bool" where
  "isnan NaN = True"
| "isnan _ = False"

fun fadd :: "float \<Rightarrow> float \<Rightarrow> float" where
  "fadd NaN _ = NaN"
| "fadd _ NaN = NaN"
| "fadd PInf NInf = NaN"
| "fadd NInf PInf = NaN"
| "fadd PInf _ = PInf"
| "fadd _ PInf = PInf"
| "fadd NInf _ = NInf"
| "fadd _ NInf = NInf"
| "fadd (Fin a) (Fin b) = Fin (a + b)"

fun fneg :: "float \<Rightarrow> float" where
  "fneg NaN = NaN"
| "fneg NInf = PInf"
| "fneg PInf = NInf"
| "fneg (Fin a) = Fin (- a)"

definition fsub :: "float \<Rightarrow> float \<Rightarrow> float" where
  "fsub x y = fadd x (fneg y)"

text \<open>The infinity (or NaN) that a product or quotient of the given sign yields.\<close>

definition inf_of_sign :: "real \<Rightarrow> float" where
  "inf_of_sign s = (if s = 0 then NaN else if 0 < s then PInf else NInf)"

fun fsign :: "float \<Rightarrow> real" where
  "fsign NaN = 0"
| "fsign NInf = - 1"
| "fsign PInf = 1"
| "fsign (Fin a) = sgn a"

fun fmul :: "float \<Rightarrow> float \<Rightarrow> float" where
  "fmul NaN _ = NaN"
| "fmul _ NaN = NaN"
| "fmul (Fin a) (Fin b) = Fin (a * b)"
| "fmul x y = inf_of_sign (fsign x * fsign y)"

text \<open>Division of a sum by an element count, as the reductions \<^verbatim>\<open>mean\<close> and
  \<^verbatim>\<open>std\<close> do: a count of zero gives \<open>0/0 = NaN\<close> or an infinity.\<close>

fun fdiv_count :: "float \<Rightarrow> nat \<Rightarrow> float" where
  "fdiv_count NaN n = NaN"
| "fdiv_count NInf n = NInf"
| "fdiv_count PInf n = PInf"
| "fdiv_count (Fin a) n = (if n = 0 then inf_of_sign a else Fin (a / real n))"

fun fsqrt :: "float \<Rightarrow> float" where
  "fsqrt NaN = NaN"
| "fsqrt NInf = NaN"
| "fsqrt PInf = PInf"
| "fsqrt (Fin a) = (if a < 0 then NaN else Fin (sqrt a))"

text \<open>
  The total order in which \<^verbatim>\<open>torch.topk\<close>, \<^verbatim>\<open>torch.sort\<close> and \<^verbatim>\<open>torch.max\<close>
  compare scalars: the numeric order, with NaN above every number.
\<close>

instantiation float :: linorder
begin

fun less_eq_float :: "float \<Rightarrow> float \<Rightarrow> bool" where
  "less_eq_float _ NaN = True"
| "less_eq_float NaN _ = False"
| "less_eq_float NInf _ = True"
| "less_eq_float _ NInf = False"
| "less_eq_float _ PInf = True"
| "less_eq_float PInf _ = False"
| "less_eq_float (Fin a) (Fin b) = (a \<le> b)"

definition less_float :: "float \<Rightarrow> float \<Rightarrow> bool" where
  "less_float x y = (x \<le> y \<and> \<not> y \<le> x)"

instance
proof
  fix x y z :: float
  show "(x < y) = (x \<le> y \<and> \<not> y \<le> x)"
    by (simp add: less_float_def)
  show "x \<le> x"
    by (cases x) simp_all
  show "x \<le> y \<Longrightarrow> y \<le> z \<Longrightarrow> x \<le> z"
    by (cases x; cases y; cases z) simp_all
  show "x \<le> y \<Longrightarrow> y \<le> x \<Longrightarrow> x = y"
    by (cases x; cases y) simp_all
  show "x \<le> y \<or> y \<le> x"
    by (cases x; cases y) auto
qed

end

type_synonym vec = "float list"
type_synonym mat = "float list list"
type_synonym tensor3 = "float list list list"
type_synonym tensor4 = "float list list list list"

text \<open>
  A tensor of rank \<open>n\<close> is a list nested \<open>n\<close> deep, outermost axis first. The
  representation covers the tensors all of whose axes have at least one entry.
  Shapes are predicates on the nested lists.
\<close>

definition is_mat :: "nat \<Rightarrow> nat \<Rightarrow> 'a list list \<Rightarrow> bool" where
  "is_mat n m x = (length x = n \<and> (\<forall>r \<in> set x. length r = m))"

definition is_t3 :: "nat \<Rightarrow> nat \<Rightarrow> nat \<Rightarrow> 'a list list list \<Rightarrow> bool" where
  "is_t3 n m k x = (length x = n \<and> (\<forall>r \<in> set x. is_mat m k r))"

definition is_t4 :: "nat \<Rightarrow> nat \<Rightarrow> nat \<Rightarrow> nat \<Rightarrow> 'a list list list list \<Rightarrow> bool" where
  "is_t4 n m k l x = (length x = n \<and> (\<forall>r \<in> set x. is_t3 m k l r))"

datatype error = RuntimeError | IndexError

subsection \<open>Operations of the tensor library\<close>

text \<open>Collecting the results of a list of operations that can fail: the first
  failure is the result.\<close>

fun collect :: "(error + 'a) list \<Rightarrow> error + 'a list" where
  "collect [] = Inr []"
| "collect (Inl err # rs) = Inl err"
| "collect (Inr x # rs) = (case collect rs of Inl err \<Rightarrow> Inl err | Inr xs \<Rightarrow> Inr (x # xs))"

text \<open>
  A binary operation on two tensors of the same rank broadcasts along an axis: the
  sizes agree, or one of them is 1 and its entry is repeated; otherwise the library
  raises.
\<close>

definition broadcast :: "('a \<Rightarrow> 'b \<Rightarrow> error + 'c) \<Rightarrow> 'a list \<Rightarrow> 'b list \<Rightarrow> error + 'c list" where
  "broadcast f xs ys =
     (if length xs = length ys then collect (map2 f xs ys)
      else if length xs = 1 then collect (map (f (hd xs)) ys)
      else if length ys = 1 then collect (map (\<lambda>x. f x (hd ys)) xs)
      else Inl RuntimeError)"

definition add3 :: "tensor3 \<Rightarrow> tensor3 \<Rightarrow> error + tensor3" where
  "add3 = broadcast (broadcast (broadcast (\<lambda>a b. Inr (fadd a b))))"

text \<open>The in-place sum \<^verbatim>\<open>r += x\<close> of two vectors: \<open>x\<close> is broadcast to the shape
  of \<open>r\<close>, which does not change.\<close>

definition iadd :: "vec \<Rightarrow> vec \<Rightarrow> error + vec" where
  "iadd r x =
     (if length x = length r then Inr (map2 fadd r x)
      else if length x = 1 then Inr (map (\<lambda>a. fadd a (hd x)) r)
      else Inl RuntimeError)"

text \<open>\<^verbatim>\<open>view\<close> and \<^verbatim>\<open>reshape\<close> regroup the entries of a tensor, read in row-major
  order; they raise when the number of entries does not fit the shape.\<close>

fun chunks :: "nat \<Rightarrow> nat \<Rightarrow> 'a list \<Rightarrow> 'a list list" where
  "chunks 0 n xs = []"
| "chunks (Suc k) n xs = take n xs # chunks k n (drop n xs)"

definition view_rows :: "nat \<Rightarrow> 'a list \<Rightarrow> error + 'a list list" where
  "view_rows d xs =
     (if d = 0 \<or> length xs mod d \<noteq> 0 then Inl RuntimeError
      else Inr (chunks (length xs div d) d xs))"

definition view3 :: "nat \<Rightarrow> nat \<Rightarrow> nat \<Rightarrow> 'a list \<Rightarrow> error + 'a list list list" where
  "view3 h e c xs =
     (if length xs \<noteq> h * e * c then Inl RuntimeError
      else Inr (map (chunks e c) (chunks h (e * c) xs)))"

definition reshape3 :: "nat \<Rightarrow> nat \<Rightarrow> nat \<Rightarrow> 'a list list list \<Rightarrow> error + 'a list list list" where
  "reshape3 h k a x = view3 h k a (concat (concat x))"

text \<open>\<^verbatim>\<open>torch.stack\<close> raises on an empty list and on tensors of different shapes.\<close>

definition stack3 :: "tensor3 list \<Rightarrow> error + tensor4" where
  "stack3 xs =
     (case xs of [] \<Rightarrow> Inl RuntimeError
      | x # _ \<Rightarrow>
          if \<forall>y \<in> set xs. map (map length) y = map (map length) x then Inr xs
          else Inl RuntimeError)"

definition stack1 :: "vec list \<Rightarrow> error + mat" where
  "stack1 xs =
     (case xs of [] \<Rightarrow> Inl RuntimeError
      | x # _ \<Rightarrow>
          if \<forall>y \<in> set xs. length y = length x then Inr xs
          else Inl RuntimeError)"

definition unsqueeze0 :: "'a \<Rightarrow> 'a list" where
  "unsqueeze0 x = [x]"

definition repeat0 :: "nat \<Rightarrow> 'a list \<Rightarrow> 'a list" where
  "repeat0 n x = concat (replicate n x)"

definition permute10 :: "'a list list \<Rightarrow> 'a list list" where
  "permute10 x = transpose x"

text \<open>Reductions. A reduction along an axis applies the reduction of a vector to
  every column; the number of columns is the size of the axis that stays.\<close>

definition fsum :: "vec \<Rightarrow> float" where
  "fsum xs = foldr fadd xs (Fin 0)"

definition fmean :: "vec \<Rightarrow> float" where
  "fmean xs = fdiv_count (fsum xs) (length xs)"

definition sq_dev :: "float \<Rightarrow> float \<Rightarrow> float" where
  "sq_dev m x = fmul (fsub x m) (fsub x m)"

definition fstd_biased :: "vec \<Rightarrow> float" where
  "fstd_biased xs = fsqrt (fdiv_count (fsum (map (sq_dev (fmean xs)) xs)) (length xs))"

definition fstd_unbiased :: "vec \<Rightarrow> float" where
  "fstd_unbiased xs = fsqrt (fdiv_count (fsum (map (sq_dev (fmean xs)) xs)) (length xs - 1))"

definition column :: "nat \<Rightarrow> 'a list list \<Rightarrow> 'a list" where
  "column j m = map (\<lambda>r. r ! j) m"

definition reduce_cols :: "('a list \<Rightarrow> 'b) \<Rightarrow> nat \<Rightarrow> 'a list list \<Rightarrow> 'b list" where
  "reduce_cols f n m = map (\<lambda>j. f (column j m)) [0..<n]"

definition sum_dim0 :: "nat \<Rightarrow> mat \<Rightarrow> vec" where
  "sum_dim0 n m = reduce_cols fsum n m"

definition mean_dim1 :: "nat \<Rightarrow> tensor3 \<Rightarrow> mat" where
  "mean_dim1 n x = map (reduce_cols fmean n) x"

definition std_dim1 :: "nat \<Rightarrow> tensor3 \<Rightarrow> mat" where
  "std_dim1 n x = map (reduce_cols fstd_biased n) x"

definition width :: "'a list list \<Rightarrow> nat" where
  "width m = (case m of [] \<Rightarrow> 0 | r # _ \<Rightarrow> length r)"

text \<open>\<^verbatim>\<open>max\<close> and \<^verbatim>\<open>min\<close> of all entries; both give NaN when an entry is NaN.\<close>

definition tmax :: "vec \<Rightarrow> float" where
  "tmax xs = fold max (tl xs) (hd xs)"

definition tmin :: "vec \<Rightarrow> float" where
  "tmin xs = (if \<exists>x \<in> set xs. isnan x then NaN else fold min (tl xs) (hd xs))"

text \<open>Indexing the second axis with a list of indices, \<^verbatim>\<open>x[:, idx]\<close>.\<close>

definition index_dim1 :: "'a list list \<Rightarrow> nat list \<Rightarrow> error + 'a list list" where
  "index_dim1 x idx =
     (if \<forall>m \<in> set x. \<forall>i \<in> set idx. i < length m
      then Inr (map (\<lambda>m. map (\<lambda>i. m ! i) idx) x)
      else Inl IndexError)"

text \<open>
  \<^verbatim>\<open>topk(k, dim=0, largest=True, sorted=False)\<close> on a vector raises when \<open>k\<close>
  exceeds its length. Otherwise it returns the indices of \<open>k\<close> largest entries, in an
  order and with a choice among equal entries that the library leaves open: the
  choice is a parameter of the model, and \<open>is_topk\<close> is what the library promises
  of it.
\<close>

definition topk :: "(nat \<Rightarrow> vec \<Rightarrow> nat list) \<Rightarrow> nat \<Rightarrow> vec \<Rightarrow> error + nat list" where
  "topk choice k xs = (if length xs < k then Inl RuntimeError else Inr (choice k xs))"

definition is_topk :: "nat \<Rightarrow> vec \<Rightarrow> nat list \<Rightarrow> bool" where
  "is_topk k xs idx =
     (length idx = k \<and> distinct idx \<and> (\<forall>i \<in> set idx. i < length xs) \<and>
      (\<forall>i \<in> set idx. \<forall>j \<in> set [0..<length xs]. j \<in> set idx \<or> xs ! j \<le> xs ! i))"

definition topk_contract :: "(nat \<Rightarrow> vec \<Rightarrow> nat list) \<Rightarrow> bool" where
  "topk_contract choice = (\<forall>k xs. k \<le> length xs \<longrightarrow> is_topk k xs (choice k xs))"

text \<open>One choice that keeps the promise: the first \<open>k\<close> indices of a stable sort by
  decreasing value.\<close>

definition topk_sorted :: "nat \<Rightarrow> vec \<Rightarrow> nat list" where
  "topk_sorted k xs = take k (rev (sort_key (\<lambda>i. xs ! i) [0..<length xs]))"



text \<open>
  \<^verbatim>\<open>torch.randn\<close> fills a tensor with draws of the generator, in row-major order.
  \<open>'s\<close> is the state of everything outside the planner that a call can change: the
  random generator and the internals of the collaborators. A draw is a finite number.
\<close>

fun draws :: "('s \<Rightarrow> 'a \<times> 's) \<Rightarrow> nat \<Rightarrow> 's \<Rightarrow> 'a list \<times> 's" where
  "draws d 0 s = ([], s)"
| "draws d (Suc n) s =
     (case d s of (x, s1) \<Rightarrow> case draws d n s1 of (xs, s2) \<Rightarrow> (x # xs, s2))"

definition randn3 :: "('s \<Rightarrow> real \<times> 's) \<Rightarrow> nat \<Rightarrow> nat \<Rightarrow> nat \<Rightarrow> 's \<Rightarrow> tensor3 \<times> 's" where
  "randn3 d h c a = draws (draws (draws (\<lambda>s. case d s of (x, s') \<Rightarrow> (Fin x, s')) a) c) h"

definition nan_to_zero :: "vec \<Rightarrow> vec" where
  "nan_to_zero returns = map (\<lambda>r. if isnan r then Fin 0 else r) returns"

section \<open>The planner\<close>

text \<open>
  The collaborators of the planner and the two library operations whose result the
  source does not determine. \<open>ensemble\<close> is the call \<^verbatim>\<open>self.ensemble(states, actions)\<close>,
  \<open>ensemble_sample\<close> is \<^verbatim>\<open>self.ensemble.sample\<close>, \<open>measure\<close> is the call of the
  exploration measure and \<open>measure_get_stats\<close> its \<^verbatim>\<open>get_stats\<close>. The output of the
  reward model is taken in row-major order. Sampling, the measure and the generator
  read and change the outside state \<open>'s\<close>.
\<close>

record 's env =
  ensemble :: "tensor3 \<Rightarrow> tensor3 \<Rightarrow> tensor3 \<times> tensor3"
  ensemble_sample :: "tensor3 \<Rightarrow> tensor3 \<Rightarrow> 's \<Rightarrow> tensor3 \<times> 's"
  reward_model :: "mat \<Rightarrow> vec"
  measure :: "tensor4 \<Rightarrow> tensor4 \<Rightarrow> 's \<Rightarrow> mat \<times> 's"
  measure_get_stats :: "'s \<Rightarrow> (string \<rightharpoonup> float) \<times> 's"
  normal_draw :: "'s \<Rightarrow> real \<times> 's"
  topk_choice :: "nat \<Rightarrow> vec \<Rightarrow> nat list"

text \<open>The attributes of a \<^verbatim>\<open>Planner\<close> object that are data.\<close>

record planner =
  action_size :: nat
  ensemble_size :: nat
  plan_horizon :: nat
  optimisation_iters :: nat
  n_candidates :: nat
  top_candidates :: nat
  use_reward :: bool
  use_exploration :: bool
  expl_scale :: float
  reward_stats :: "vec list"

subsection \<open>\<^verbatim>\<open>perform_rollout\<close>\<close>

text \<open>Lines 129-130: the actions \<open>(H, C, A)\<close> are copied for every member of the
  ensemble and the time axis is moved to the front, giving \<open>(H, E, C, A)\<close>.\<close>

definition rollout_actions :: "planner \<Rightarrow> tensor3 \<Rightarrow> tensor4" where
  "rollout_actions p actions = permute10 (repeat0 (ensemble_size p) (unsqueeze0 actions))"

text \<open>The loop of lines 132-137, from timestep \<open>t\<close> for \<open>n\<close> more steps, on the
  three lists of length \<open>plan_horizon + 1\<close>.\<close>

fun rollout_loop ::
  "'s env \<Rightarrow> tensor4 \<Rightarrow> nat \<Rightarrow> nat \<Rightarrow> tensor3 list \<times> tensor3 list \<times> tensor3 list \<times> 's
   \<Rightarrow> error + tensor3 list \<times> tensor3 list \<times> tensor3 list \<times> 's" where
  "rollout_loop e acts t 0 acc = Inr acc"
| "rollout_loop e acts t (Suc n) (states, delta_means, delta_vars, w) =
     (if length acts \<le> t then Inl IndexError
      else case ensemble e (states ! t) (acts ! t) of (delta_mean, delta_var) \<Rightarrow>
        case ensemble_sample e delta_mean delta_var w of (smp, w') \<Rightarrow>
        case add3 (states ! t) smp of
          Inl err \<Rightarrow> Inl err
        | Inr nxt \<Rightarrow>
            rollout_loop e acts (Suc t) n
              (states[t + 1 := nxt], delta_means[t + 1 := delta_mean],
               delta_vars[t + 1 := delta_var], w'))"

definition perform_rollout ::
  "'s env \<Rightarrow> planner \<Rightarrow> tensor3 \<Rightarrow> tensor3 \<Rightarrow> 's \<Rightarrow> error + tensor4 \<times> tensor4 \<times> tensor4 \<times> 's" where
  "perform_rollout e p current_state actions w =
     (let T = plan_horizon p + 1;
          states = (replicate T [])[0 := current_state];
          delta_means = replicate T [];
          delta_vars = replicate T [];
          acts = rollout_actions p actions
      in case rollout_loop e acts 0 (plan_horizon p) (states, delta_means, delta_vars, w) of
           Inl err \<Rightarrow> Inl err
         | Inr (states, delta_means, delta_vars, w') \<Rightarrow>
             (case stack3 (tl states) of Inl err \<Rightarrow> Inl err | Inr st \<Rightarrow>
              case stack3 (tl delta_vars) of Inl err \<Rightarrow> Inl err | Inr dv \<Rightarrow>
              case stack3 (tl delta_means) of Inl err \<Rightarrow> Inl err | Inr dm \<Rightarrow>
                Inr (st, dv, dm, w')))"

subsection \<open>\<^verbatim>\<open>forward\<close>\<close>

text \<open>
  \<open>action_mean\<close> and \<open>action_std_dev\<close> have shape \<open>(H, 1, A)\<close> throughout. The axis of
  size 1 is not represented: both are \<open>H \<times> A\<close> matrices, and broadcasting them
  against the candidate axis uses the one row for every candidate.
\<close>

text \<open>Line 76: \<^verbatim>\<open>action_mean + action_std_dev * noise\<close>.\<close>

definition sample_actions :: "mat \<Rightarrow> mat \<Rightarrow> tensor3 \<Rightarrow> tensor3" where
  "sample_actions action_mean action_std_dev noise =
     map (\<lambda>(mu, sd, nz). map (\<lambda>row. map2 fadd mu (map2 fmul sd row)) nz)
       (zip action_mean (zip action_std_dev noise))"

text \<open>Lines 87-89: the exploration bonus, added to the returns.\<close>

definition exploration_returns ::
  "'s env \<Rightarrow> planner \<Rightarrow> tensor4 \<Rightarrow> tensor4 \<Rightarrow> vec \<Rightarrow> 's \<Rightarrow> error + vec \<times> 's" where
  "exploration_returns e p delta_means delta_vars returns w =
     (case measure e delta_means delta_vars w of (bonus, w') \<Rightarrow>
        let expl_bonus = map (map (\<lambda>x. fmul x (expl_scale p))) bonus;
            expl_bonus = sum_dim0 (width expl_bonus) expl_bonus
        in case iadd returns expl_bonus of
             Inl err \<Rightarrow> Inl err
           | Inr r \<Rightarrow> Inr (r, w'))"

text \<open>Lines 92-99: the reward of every candidate.\<close>

definition candidate_rewards :: "'s env \<Rightarrow> planner \<Rightarrow> nat \<Rightarrow> tensor4 \<Rightarrow> error + vec" where
  "candidate_rewards e p state_size states =
     (case view_rows state_size (concat (concat (concat states))) of
        Inl err \<Rightarrow> Inl err
      | Inr rows \<Rightarrow>
          (case view3 (plan_horizon p) (ensemble_size p) (n_candidates p) (reward_model e rows) of
             Inl err \<Rightarrow> Inl err
           | Inr rewards \<Rightarrow>
               Inr (sum_dim0 (n_candidates p) (mean_dim1 (n_candidates p) rewards))))"

text \<open>Lines 84-101: the returns of the candidates, and the planner with its log.\<close>

definition score_candidates ::
  "'s env \<Rightarrow> planner \<Rightarrow> nat \<Rightarrow> tensor4 \<Rightarrow> tensor4 \<Rightarrow> tensor4 \<Rightarrow> 's \<Rightarrow> error + vec \<times> planner \<times> 's" where
  "score_candidates e p state_size states delta_vars delta_means w =
     (let returns = replicate (n_candidates p) (Fin 0)
      in case (if use_exploration p
               then exploration_returns e p delta_means delta_vars returns w
               else Inr (returns, w)) of
           Inl err \<Rightarrow> Inl err
         | Inr (returns, w') \<Rightarrow>
             if use_reward p
             then (case candidate_rewards e p state_size states of
                     Inl err \<Rightarrow> Inl err
                   | Inr rewards \<Rightarrow>
                       (case iadd returns rewards of
                          Inl err \<Rightarrow> Inl err
                        | Inr r \<Rightarrow> Inr (r, p\<lparr>reward_stats := reward_stats p @ [rewards]\<rparr>, w')))
             else Inr (returns, p, w'))"

text \<open>Lines 103-109: the indices of the elite candidates.\<close>

definition elite_indices :: "'s env \<Rightarrow> planner \<Rightarrow> vec \<Rightarrow> error + nat list" where
  "elite_indices e p returns =
     (let returns = nan_to_zero returns
      in topk (topk_choice e) (top_candidates p) returns)"

text \<open>Lines 111-113: the actions of the elite candidates.\<close>

definition best_actions :: "planner \<Rightarrow> tensor3 \<Rightarrow> nat list \<Rightarrow> error + tensor3" where
  "best_actions p actions idx =
     (case index_dim1 actions idx of
        Inl err \<Rightarrow> Inl err
      | Inr sel \<Rightarrow> reshape3 (plan_horizon p) (top_candidates p) (action_size p) sel)"

text \<open>Lines 115-118: the new mean and standard deviation.\<close>

definition refit :: "planner \<Rightarrow> tensor3 \<Rightarrow> mat \<times> mat" where
  "refit p best = (mean_dim1 (action_size p) best, std_dim1 (action_size p) best)"

text \<open>One pass of the loop of line 75.\<close>

definition cem_iteration ::
  "'s env \<Rightarrow> nat \<Rightarrow> tensor3 \<Rightarrow> mat \<times> mat \<times> planner \<times> 's \<Rightarrow> error + mat \<times> mat \<times> planner \<times> 's" where
  "cem_iteration e state_size state acc =
     (case acc of (action_mean, action_std_dev, p, w) \<Rightarrow>
      case randn3 (normal_draw e) (plan_horizon p) (n_candidates p) (action_size p) w of
        (noise, w1) \<Rightarrow>
      let actions = sample_actions action_mean action_std_dev noise
      in case perform_rollout e p state actions w1 of
           Inl err \<Rightarrow> Inl err
         | Inr (states, delta_vars, delta_means, w2) \<Rightarrow>
      case score_candidates e p state_size states delta_vars delta_means w2 of
           Inl err \<Rightarrow> Inl err
         | Inr (returns, p', w3) \<Rightarrow>
      case elite_indices e p returns of
           Inl err \<Rightarrow> Inl err
         | Inr idx \<Rightarrow>
      case best_actions p actions idx of
           Inl err \<Rightarrow> Inl err
         | Inr best \<Rightarrow>
      case refit p best of (action_mean', action_std_dev') \<Rightarrow>
        Inr (action_mean', action_std_dev', p', w3))"

fun cem_loop ::
  "'s env \<Rightarrow> nat \<Rightarrow> tensor3 \<Rightarrow> nat \<Rightarrow> mat \<times> mat \<times> planner \<times> 's \<Rightarrow> error + mat \<times> mat \<times> planner \<times> 's" where
  "cem_loop e state_size state 0 acc = Inr acc"
| "cem_loop e state_size state (Suc n) acc =
     (case cem_iteration e state_size state acc of
        Inl err \<Rightarrow> Inl err
      | Inr acc' \<Rightarrow> cem_loop e state_size state n acc')"

text \<open>Lines 63-73: the state copied for every member and candidate, and the first
  distribution.\<close>

definition initial_state :: "planner \<Rightarrow> vec \<Rightarrow> tensor3" where
  "initial_state p state =
     repeat0 (ensemble_size p) (map (repeat0 (n_candidates p)) (unsqueeze0 (unsqueeze0 state)))"

definition initial_distribution :: "planner \<Rightarrow> mat \<times> mat" where
  "initial_distribution p =
     (replicate (plan_horizon p) (replicate (action_size p) (Fin 0)),
      replicate (plan_horizon p) (replicate (action_size p) (Fin 1)))"

text \<open>The loop of \<^verbatim>\<open>forward\<close>, and \<^verbatim>\<open>forward\<close>: line 120 takes the first row of the
  final mean, and raises when the mean has no row.\<close>

definition optimise :: "'s env \<Rightarrow> planner \<Rightarrow> vec \<Rightarrow> 's \<Rightarrow> error + mat \<times> mat \<times> planner \<times> 's" where
  "optimise e p state w =
     (case initial_distribution p of (action_mean, action_std_dev) \<Rightarrow>
        cem_loop e (length state) (initial_state p state) (optimisation_iters p)
          (action_mean, action_std_dev, p, w))"

definition forward :: "'s env \<Rightarrow> planner \<Rightarrow> vec \<Rightarrow> 's \<Rightarrow> error + vec \<times> planner \<times> 's" where
  "forward e p state w =
     (case optimise e p state w of
        Inl err \<Rightarrow> Inl err
      | Inr (action_mean, action_std_dev, p', w') \<Rightarrow>
          (case action_mean of
             [] \<Rightarrow> Inl IndexError
           | v # _ \<Rightarrow> Inr (v, p', w')))"

subsection \<open>\<^verbatim>\<open>get_stats\<close>\<close>

text \<open>
  The result is the pair of the statistics of the measure and the dictionary of the
  four reward statistics, or the error raised; the planner and the outside state after
  the call come with it in both cases. \<^verbatim>\<open>torch.stack\<close> raises on an empty log, and
  \<^verbatim>\<open>max\<close> raises on a tensor with no entry; the log is reset on line 59, after both.
\<close>

definition get_stats ::
  "'s env \<Rightarrow> planner \<Rightarrow> 's \<Rightarrow> (error + (string \<rightharpoonup> float) \<times> (string \<times> float) list) \<times> planner \<times> 's" where
  "get_stats e p w =
     (case (if use_exploration p then measure_get_stats e w else (Map.empty, w)) of
        (info_stats, w') \<Rightarrow>
      case stack1 (reward_stats p) of
        Inl err \<Rightarrow> (Inl err, p, w')
      | Inr reward_tensor \<Rightarrow>
          let reward_tensor = concat reward_tensor
          in if reward_tensor = [] then (Inl RuntimeError, p, w')
             else (Inr (info_stats,
                        [(''max'', tmax reward_tensor),
                         (''mean'', fmean reward_tensor),
                         (''min'', tmin reward_tensor),
                         (''std'', fstd_unbiased reward_tensor)]),
                   p\<lparr>reward_stats := []\<rparr>, w'))"

section \<open>Contracts of the collaborators\<close>

text \<open>
  The planner checks no shape. What it needs of the ensemble is that, on a state of shape
  \<open>(E, C, D)\<close> and actions of shape \<open>(E, C, A)\<close>, the two outputs have the shape of the
  state, and that a sample has the shape of its parameters.
\<close>

definition ensemble_ok :: "'s env \<Rightarrow> nat \<Rightarrow> nat \<Rightarrow> nat \<Rightarrow> nat \<Rightarrow> bool" where
  "ensemble_ok e E C D A =
     ((\<forall>x a. is_t3 E C D x \<and> is_t3 E C A a \<longrightarrow>
         is_t3 E C D (fst (ensemble e x a)) \<and> is_t3 E C D (snd (ensemble e x a))) \<and>
      (\<forall>m v w. is_t3 E C D m \<and> is_t3 E C D v \<longrightarrow> is_t3 E C D (fst (ensemble_sample e m v w))))"


text \<open>The reward model gives one reward per row of states.\<close>

definition reward_ok :: "'s env \<Rightarrow> nat \<Rightarrow> bool" where
  "reward_ok e D =
     (\<forall>rows. (\<forall>r \<in> set rows. length r = D) \<longrightarrow> length (reward_model e rows) = length rows)"

text \<open>The measure gives one bonus per timestep and candidate.\<close>

definition measure_ok :: "'s env \<Rightarrow> nat \<Rightarrow> nat \<Rightarrow> nat \<Rightarrow> nat \<Rightarrow> bool" where
  "measure_ok e H E C D =
     (\<forall>dm dv w. is_t4 H E C D dm \<and> is_t4 H E C D dv \<longrightarrow> is_mat H C (fst (measure e dm dv w)))"

text \<open>All collaborators keep their contracts, for a planner and a state size.\<close>

definition collaborators_ok :: "'s env \<Rightarrow> planner \<Rightarrow> nat \<Rightarrow> bool" where
  "collaborators_ok e p D =
     (ensemble_ok e (ensemble_size p) (n_candidates p) D (action_size p) \<and>
      reward_ok e D \<and>
      measure_ok e (plan_horizon p) (ensemble_size p) (n_candidates p) D \<and>
      topk_contract (topk_choice e))"



text \<open>The reward log as \<open>forward\<close> leaves it: one vector per logged iteration, each with
  one entry per candidate.\<close>

definition log_ok :: "planner \<Rightarrow> bool" where
  "log_ok p = (0 < n_candidates p \<and> (\<forall>r \<in> set (reward_stats p). length r = n_candidates p))"


text \<open>The tensors all of whose entries are finite numbers.\<close>

fun is_fin :: "float \<Rightarrow> bool" where
  "is_fin (Fin a) = True"
| "is_fin _ = False"

definition fin_mat :: "mat \<Rightarrow> bool" where
  "fin_mat m = (\<forall>r \<in> set m. \<forall>x \<in> set r. is_fin x)"





text \<open>A distribution as the loop keeps it: mean and standard deviation of shape
  \<open>(H, A)\<close>, with finite entries.\<close>

definition distribution_ok :: "planner \<Rightarrow> mat \<Rightarrow> mat \<Rightarrow> bool" where
  "distribution_ok p am asd =
     (is_mat (plan_horizon p) (action_size p) am \<and> is_mat (plan_horizon p) (action_size p) asd \<and>
      fin_mat am \<and> fin_mat asd)"


section \<open>A small instance\<close>

text \<open>
  An ensemble of two members whose predicted mean and variance are the state itself and
  whose sample is the mean, a reward that sums the entries of a state, a measure that
  sums the first member's means, and a generator that counts.
\<close>

definition demo_env :: "nat env" where
  "demo_env =
     \<lparr>ensemble = (\<lambda>x a. (x, x)),
      ensemble_sample = (\<lambda>m v s. (m, Suc s)),
      reward_model = map fsum,
      measure = (\<lambda>dm dv s. (map (\<lambda>m. map fsum (hd m)) dm, Suc s)),
      measure_get_stats = (\<lambda>s. (Map.empty, s)),
      normal_draw = (\<lambda>s. (real s, Suc s)),
      topk_choice = topk_sorted\<rparr>"

definition demo_planner :: planner where
  "demo_planner =
     \<lparr>action_size = 1, ensemble_size = 2, plan_horizon = 2, optimisation_iters = 1,
      n_candidates = 2, top_candidates = 1, use_reward = True, use_exploration = True,
      expl_scale = Fin 1, reward_stats = []\<rparr>"

definition demo_state :: tensor3 where
  "demo_state = [[[Fin 1], [Fin 2]], [[Fin 1], [Fin 2]]]"

definition demo_actions :: tensor3 where
  "demo_actions = [[[Fin 0], [Fin 1]], [[Fin 0], [Fin 1]]]"

text \<open>What the rollout from \<open>demo_state\<close> yields: the state doubles at every step.\<close>

definition demo_states :: tensor4 where
  "demo_states =
     [[[[Fin 2], [Fin 4]], [[Fin 2], [Fin 4]]], [[[Fin 4], [Fin 8]], [[Fin 4], [Fin 8]]]]"

definition demo_deltas :: tensor4 where
  "demo_deltas =
     [[[[Fin 1], [Fin 2]], [[Fin 1], [Fin 2]]], [[[Fin 2], [Fin 4]], [[Fin 2], [Fin 4]]]]"


text \<open>Returns of five candidates, one of them undefined, and a planner that keeps two.\<close>

definition demo_returns :: vec where
  "demo_returns = [Fin 1, Fin 5, NaN, Fin 9, Fin 2]"

definition demo_selector :: planner where
  "demo_selector = demo_planner\<lparr>n_candidates := 5, top_candidates := 2\<rparr>"


text \<open>A planner without exploration that has logged two iterations.\<close>

definition demo_logged :: planner where
  "demo_logged = demo_planner\<lparr>use_exploration := False, reward_stats := [[Fin 1, Fin 3], [Fin 2, Fin 6]]\<rparr>"




section \<open>Facts about the tensor operations\<close>

lemma collect_Inr: "collect (map Inr xs) = Inr xs"
  by (induction xs) simp_all

lemma collect_cong_Inr:
  "(\<And>z. z \<in> set zs \<Longrightarrow> f z = Inr (g z)) \<Longrightarrow> collect (map f zs) = Inr (map g zs)"
  by (induction zs) simp_all

lemma broadcast_same:
  assumes "length xs = length ys"
    and "\<And>x y. (x, y) \<in> set (zip xs ys) \<Longrightarrow> f x y = Inr (g x y)"
  shows "broadcast f xs ys = Inr (map2 g xs ys)"
proof -
  have "collect (map (\<lambda>(x, y). f x y) (zip xs ys)) = Inr (map (\<lambda>(x, y). g x y) (zip xs ys))"
    by (rule collect_cong_Inr) (use assms(2) in auto)
  then show ?thesis
    using assms(1) by (simp add: broadcast_def)
qed

lemma is_mat_nth: "is_mat n m x \<Longrightarrow> i < n \<Longrightarrow> length (x ! i) = m"
  by (simp add: is_mat_def)

lemma is_t3_nth: "is_t3 n m k x \<Longrightarrow> i < n \<Longrightarrow> is_mat m k (x ! i)"
  by (simp add: is_t3_def)

lemma is_t4_nth: "is_t4 n m k l x \<Longrightarrow> i < n \<Longrightarrow> is_t3 m k l (x ! i)"
  by (simp add: is_t4_def)

lemma zip_set_mat:
  "(x, y) \<in> set (zip xs ys) \<Longrightarrow> x \<in> set xs \<and> y \<in> set ys"
  by (auto dest: set_zip_leftD set_zip_rightD)

lemma add3_same:
  assumes "is_t3 n m k x" and "is_t3 n m k y"
  shows "add3 x y = Inr (map2 (map2 (map2 fadd)) x y)"
proof -
  have vec: "broadcast (\<lambda>a b. Inr (fadd a b)) u v = Inr (map2 fadd u v)"
    if "length u = length v" for u v :: vec
    using that by (rule broadcast_same) simp
  have mat: "broadcast (broadcast (\<lambda>a b. Inr (fadd a b))) u v = Inr (map2 (map2 fadd) u v)"
    if "is_mat m k u" "is_mat m k v" for u v :: mat
  proof (rule broadcast_same)
    show "length u = length v" using that by (simp add: is_mat_def)
    fix a b assume "(a, b) \<in> set (zip u v)"
    then have "a \<in> set u" "b \<in> set v" by (auto dest: zip_set_mat)
    then have "length a = length b" using that by (simp add: is_mat_def)
    then show "broadcast (\<lambda>a b. Inr (fadd a b)) a b = Inr (map2 fadd a b)" by (rule vec)
  qed
  show ?thesis
    unfolding add3_def
  proof (rule broadcast_same)
    show "length x = length y" using assms by (simp add: is_t3_def)
    fix a b assume "(a, b) \<in> set (zip x y)"
    then have "a \<in> set x" "b \<in> set y" by (auto dest: zip_set_mat)
    then have "is_mat m k a" "is_mat m k b" using assms by (simp_all add: is_t3_def)
    then show "broadcast (broadcast (\<lambda>a b. Inr (fadd a b))) a b = Inr (map2 (map2 fadd) a b)"
      by (rule mat)
  qed
qed

lemma is_mat_map2:
  "is_mat m k u \<Longrightarrow> is_mat m k v \<Longrightarrow> is_mat m k (map2 (map2 f) u v)"
  by (auto simp: is_mat_def dest!: zip_set_mat)

lemma is_t3_map2:
  "is_t3 n m k x \<Longrightarrow> is_t3 n m k y \<Longrightarrow> is_t3 n m k (map2 (map2 (map2 f)) x y)"
  by (auto simp: is_t3_def is_mat_map2 dest!: zip_set_mat)


section \<open>The rollout\<close>

lemma transpose_replicate_Nil: "transpose (replicate n []) = []"
  by (induction n) simp_all

lemma heads_replicate: "concat (map (case_list [] (\<lambda>h t. [h])) (replicate n (x # xs))) = replicate n x"
  by (induction n) simp_all

lemma tails_replicate: "concat (map (case_list [] (\<lambda>h t. [t])) (replicate n (x # xs))) = replicate n xs"
  by (induction n) simp_all

lemma transpose_replicate:
  "0 < n \<Longrightarrow> transpose (replicate n xs) = map (replicate n) xs"
proof (induction xs)
  case Nil
  then show ?case by (simp add: transpose_replicate_Nil)
next
  case (Cons x xs)
  then obtain k where n: "n = Suc k" by (cases n) auto
  have "transpose (replicate (Suc k) (x # xs)) =
        (x # replicate k x) # transpose (xs # replicate k xs)"
    by (simp add: heads_replicate tails_replicate)
  also have "xs # replicate k xs = replicate (Suc k) xs" by simp
  finally show ?case using Cons n by simp
qed

lemma rollout_actions_eq:
  "0 < ensemble_size p \<Longrightarrow> rollout_actions p actions = map (replicate (ensemble_size p)) actions"
  by (simp add: rollout_actions_def permute10_def repeat0_def unsqueeze0_def transpose_replicate)

lemma rollout_loop_inv:
  assumes "rollout_loop e acts t n (st, dm, dv, w) = Inr (st', dm', dv', w')"
    and "length st = L" and "length dm = L" and "length dv = L" and "t + n < L"
  shows "length st' = L \<and> length dm' = L \<and> length dv' = L \<and>
    (\<forall>i \<le> t. st' ! i = st ! i \<and> dm' ! i = dm ! i \<and> dv' ! i = dv ! i) \<and>
    (\<exists>ws. ws t = w \<and> ws (t + n) = w' \<and>
       (\<forall>i. t \<le> i \<and> i < t + n \<longrightarrow>
          i < length acts \<and>
          ensemble e (st' ! i) (acts ! i) = (dm' ! Suc i, dv' ! Suc i) \<and>
          add3 (st' ! i) (fst (ensemble_sample e (dm' ! Suc i) (dv' ! Suc i) (ws i))) = Inr (st' ! Suc i) \<and>
          ws (Suc i) = snd (ensemble_sample e (dm' ! Suc i) (dv' ! Suc i) (ws i))))"
  using assms
proof (induction n arbitrary: t st dm dv w)
  case 0
  then show ?case by auto
next
  case (Suc n)
  from Suc.prems(1) have inr: "t < length acts"
    by (auto split: if_splits)
  obtain delta_mean delta_var where ens: "ensemble e (st ! t) (acts ! t) = (delta_mean, delta_var)"
    by (cases "ensemble e (st ! t) (acts ! t)")
  obtain smp w1 where smp: "ensemble_sample e delta_mean delta_var w = (smp, w1)"
    by (cases "ensemble_sample e delta_mean delta_var w")
  from Suc.prems(1) inr ens smp obtain nxt where nxt: "add3 (st ! t) smp = Inr nxt"
    and rec: "rollout_loop e acts (Suc t) n
                (st[t + 1 := nxt], dm[t + 1 := delta_mean], dv[t + 1 := delta_var], w1)
              = Inr (st', dm', dv', w')"
    by (auto split: sum.splits)
  have "length st' = L \<and> length dm' = L \<and> length dv' = L \<and>
    (\<forall>i \<le> Suc t. st' ! i = st[t + 1 := nxt] ! i \<and> dm' ! i = dm[t + 1 := delta_mean] ! i
        \<and> dv' ! i = dv[t + 1 := delta_var] ! i) \<and>
    (\<exists>ws. ws (Suc t) = w1 \<and> ws (Suc t + n) = w' \<and>
       (\<forall>i. Suc t \<le> i \<and> i < Suc t + n \<longrightarrow>
          i < length acts \<and>
          ensemble e (st' ! i) (acts ! i) = (dm' ! Suc i, dv' ! Suc i) \<and>
          add3 (st' ! i) (fst (ensemble_sample e (dm' ! Suc i) (dv' ! Suc i) (ws i))) = Inr (st' ! Suc i) \<and>
          ws (Suc i) = snd (ensemble_sample e (dm' ! Suc i) (dv' ! Suc i) (ws i))))"
    by (rule Suc.IH [OF rec]) (use Suc.prems in simp_all)
  then obtain ws where len: "length st' = L" "length dm' = L" "length dv' = L"
    and frame: "\<And>i. i \<le> Suc t \<Longrightarrow> st' ! i = st[t + 1 := nxt] ! i \<and>
        dm' ! i = dm[t + 1 := delta_mean] ! i \<and> dv' ! i = dv[t + 1 := delta_var] ! i"
    and ws: "ws (Suc t) = w1" "ws (Suc t + n) = w'"
    and steps: "\<And>i. Suc t \<le> i \<Longrightarrow> i < Suc t + n \<Longrightarrow>
          i < length acts \<and>
          ensemble e (st' ! i) (acts ! i) = (dm' ! Suc i, dv' ! Suc i) \<and>
          add3 (st' ! i) (fst (ensemble_sample e (dm' ! Suc i) (dv' ! Suc i) (ws i))) = Inr (st' ! Suc i) \<and>
          ws (Suc i) = snd (ensemble_sample e (dm' ! Suc i) (dv' ! Suc i) (ws i))"
    by blast
  have tL: "Suc t < L" using Suc.prems by simp
  have at_t: "st' ! t = st ! t" using frame [of t] by simp
  have at_St: "st' ! Suc t = nxt" "dm' ! Suc t = delta_mean" "dv' ! Suc t = delta_var"
    using frame [of "Suc t"] tL Suc.prems by simp_all
  have old: "\<forall>i \<le> t. st' ! i = st ! i \<and> dm' ! i = dm ! i \<and> dv' ! i = dv ! i"
  proof (intro allI impI)
    fix i assume "i \<le> t"
    then show "st' ! i = st ! i \<and> dm' ! i = dm ! i \<and> dv' ! i = dv ! i"
      using frame [of i] by simp
  qed
  let ?ws = "ws(t := w)"
  have "?ws t = w \<and> ?ws (t + Suc n) = w' \<and>
       (\<forall>i. t \<le> i \<and> i < t + Suc n \<longrightarrow>
          i < length acts \<and>
          ensemble e (st' ! i) (acts ! i) = (dm' ! Suc i, dv' ! Suc i) \<and>
          add3 (st' ! i) (fst (ensemble_sample e (dm' ! Suc i) (dv' ! Suc i) (?ws i))) = Inr (st' ! Suc i) \<and>
          ?ws (Suc i) = snd (ensemble_sample e (dm' ! Suc i) (dv' ! Suc i) (?ws i)))"
  proof (intro conjI allI impI)
    show "?ws t = w" by simp
    show "?ws (t + Suc n) = w'" using ws by simp
  next
    fix i assume i: "t \<le> i \<and> i < t + Suc n"
    show "i < length acts"
      using i inr steps [of i] by (cases "i = t") auto
    show "ensemble e (st' ! i) (acts ! i) = (dm' ! Suc i, dv' ! Suc i)"
      using i ens at_t at_St steps [of i] by (cases "i = t") auto
    show "add3 (st' ! i) (fst (ensemble_sample e (dm' ! Suc i) (dv' ! Suc i) (?ws i))) = Inr (st' ! Suc i)"
      using i nxt smp at_t at_St steps [of i] by (cases "i = t") auto
    show "?ws (Suc i) = snd (ensemble_sample e (dm' ! Suc i) (dv' ! Suc i) (?ws i))"
      using i smp ws at_St steps [of i] by (cases "i = t") auto
  qed
  then show ?case using len old by blast
qed

lemma stack3_Inr: "stack3 xs = Inr ys \<Longrightarrow> ys = xs \<and> xs \<noteq> []"
  by (auto simp: stack3_def split: list.splits if_splits)

lemma perform_rollout_Inr:
  assumes "perform_rollout e p current_state actions w = Inr (states, delta_vars, delta_means, w')"
  shows "\<exists>st dm dv. rollout_loop e (rollout_actions p actions) 0 (plan_horizon p)
            ((replicate (plan_horizon p + 1) [])[0 := current_state],
             replicate (plan_horizon p + 1) [], replicate (plan_horizon p + 1) [], w)
          = Inr (st, dm, dv, w') \<and> states = tl st \<and> delta_vars = tl dv \<and> delta_means = tl dm"
  using assms unfolding perform_rollout_def Let_def
  by (auto split: sum.splits dest!: stack3_Inr)

lemma perform_rollout_steps:
  assumes "perform_rollout e p current_state actions w = Inr (states, delta_vars, delta_means, w')"
  shows "\<exists>ws. ws 0 = w \<and> ws (plan_horizon p) = w' \<and>
    (\<forall>t < plan_horizon p.
       t < length (rollout_actions p actions) \<and>
       (let x = (if t = 0 then current_state else states ! (t - 1)) in
          ensemble e x (rollout_actions p actions ! t) = (delta_means ! t, delta_vars ! t) \<and>
          add3 x (fst (ensemble_sample e (delta_means ! t) (delta_vars ! t) (ws t))) = Inr (states ! t) \<and>
          ws (Suc t) = snd (ensemble_sample e (delta_means ! t) (delta_vars ! t) (ws t))))"
proof -
  let ?H = "plan_horizon p" and ?acts = "rollout_actions p actions"
  let ?st0 = "(replicate (?H + 1) [])[0 := current_state]"
  from perform_rollout_Inr [OF assms] obtain st dm dv where
    loop: "rollout_loop e ?acts 0 ?H (?st0, replicate (?H + 1) [], replicate (?H + 1) [], w)
           = Inr (st, dm, dv, w')"
    and out: "states = tl st" "delta_vars = tl dv" "delta_means = tl dm"
    by blast
  from rollout_loop_inv [OF loop, of "?H + 1"] obtain ws where
    len: "length st = ?H + 1" "length dm = ?H + 1" "length dv = ?H + 1"
    and st0: "st ! 0 = current_state"
    and ws: "ws 0 = w" "ws ?H = w'"
    and steps: "\<And>i. i < ?H \<Longrightarrow>
          i < length ?acts \<and>
          ensemble e (st ! i) (?acts ! i) = (dm ! Suc i, dv ! Suc i) \<and>
          add3 (st ! i) (fst (ensemble_sample e (dm ! Suc i) (dv ! Suc i) (ws i))) = Inr (st ! Suc i) \<and>
          ws (Suc i) = snd (ensemble_sample e (dm ! Suc i) (dv ! Suc i) (ws i))"
    by auto
  have nth: "states ! t = st ! Suc t" "delta_vars ! t = dv ! Suc t" "delta_means ! t = dm ! Suc t"
    if "t < ?H" for t
    using that len out by (simp_all add: nth_tl)
  have cur: "(if t = 0 then current_state else states ! (t - 1)) = st ! t" if "t < ?H" for t
    using that st0 nth [of "t - 1"] by (cases t) simp_all
  have "\<forall>t < ?H. t < length ?acts \<and>
       (let x = (if t = 0 then current_state else states ! (t - 1)) in
          ensemble e x (?acts ! t) = (delta_means ! t, delta_vars ! t) \<and>
          add3 x (fst (ensemble_sample e (delta_means ! t) (delta_vars ! t) (ws t))) = Inr (states ! t) \<and>
          ws (Suc t) = snd (ensemble_sample e (delta_means ! t) (delta_vars ! t) (ws t)))"
    using steps by (simp add: nth cur Let_def)
  with ws show ?thesis by blast
qed

lemma rollout_loop_frame:
  assumes "rollout_loop e acts t n (st, dm, dv, w) = Inr (st', dm', dv', w')"
    and "length st = L" and "length dm = L" and "length dv = L" and "t + n < L"
  shows "\<forall>i \<le> t. st' ! i = st ! i \<and> dm' ! i = dm ! i \<and> dv' ! i = dv ! i"
  using rollout_loop_inv [OF assms] by (elim conjE)

lemma ensemble_ok_forward:
  "ensemble_ok e E C D A \<Longrightarrow> is_t3 E C D x \<Longrightarrow> is_t3 E C A a \<Longrightarrow>
     is_t3 E C D (fst (ensemble e x a)) \<and> is_t3 E C D (snd (ensemble e x a))"
  unfolding ensemble_ok_def by blast

lemma ensemble_ok_sample:
  "ensemble_ok e E C D A \<Longrightarrow> is_t3 E C D m \<Longrightarrow> is_t3 E C D v \<Longrightarrow>
     is_t3 E C D (fst (ensemble_sample e m v w))"
  unfolding ensemble_ok_def by blast

lemma rollout_loop_ok:
  assumes "ensemble_ok e E C D A"
    and "length st = L" and "length dm = L" and "length dv = L" and "t + n < L"
    and "t + n \<le> length acts" and "\<And>i. i < length acts \<Longrightarrow> is_t3 E C A (acts ! i)"
    and "is_t3 E C D (st ! t)"
  shows "\<exists>st' dm' dv' w'. rollout_loop e acts t n (st, dm, dv, w) = Inr (st', dm', dv', w') \<and>
    (\<forall>i. t < i \<and> i \<le> t + n \<longrightarrow>
        is_t3 E C D (st' ! i) \<and> is_t3 E C D (dm' ! i) \<and> is_t3 E C D (dv' ! i))"
  using assms(2-6,8)
proof (induction n arbitrary: t st dm dv w)
  case 0
  show ?case
  proof (intro exI conjI allI impI)
    show "rollout_loop e acts t 0 (st, dm, dv, w) = Inr (st, dm, dv, w)" by simp
  next
    fix i assume "t < i \<and> i \<le> t + 0"
    then have False by auto
    then show "is_t3 E C D (st ! i)" "is_t3 E C D (dm ! i)" "is_t3 E C D (dv ! i)" by simp_all
  qed
next
  case (Suc n)
  have inr: "t < length acts" using Suc.prems by simp
  obtain delta_mean delta_var where ens: "ensemble e (st ! t) (acts ! t) = (delta_mean, delta_var)"
    by (cases "ensemble e (st ! t) (acts ! t)")
  obtain smp w1 where smp: "ensemble_sample e delta_mean delta_var w = (smp, w1)"
    by (cases "ensemble_sample e delta_mean delta_var w")
  have sh: "is_t3 E C D delta_mean" "is_t3 E C D delta_var"
    using ensemble_ok_forward [OF assms(1) Suc.prems(6) assms(7) [OF inr]] ens by simp_all
  have shs: "is_t3 E C D smp"
    using ensemble_ok_sample [OF assms(1) sh, of w] smp by simp
  let ?nxt = "map2 (map2 (map2 fadd)) (st ! t) smp"
  have nxt: "add3 (st ! t) smp = Inr ?nxt"
    using Suc.prems(6) shs by (rule add3_same)
  have shn: "is_t3 E C D ?nxt"
    using Suc.prems(6) shs by (rule is_t3_map2)
  let ?st = "st[t + 1 := ?nxt]" and ?dm = "dm[t + 1 := delta_mean]" and ?dv = "dv[t + 1 := delta_var]"
  have tL: "Suc t < L" using Suc.prems by simp
  have "\<exists>st' dm' dv' w'. rollout_loop e acts (Suc t) n (?st, ?dm, ?dv, w1) = Inr (st', dm', dv', w') \<and>
    (\<forall>i. Suc t < i \<and> i \<le> Suc t + n \<longrightarrow>
        is_t3 E C D (st' ! i) \<and> is_t3 E C D (dm' ! i) \<and> is_t3 E C D (dv' ! i))"
    by (rule Suc.IH) (use Suc.prems tL shn in simp_all)
  then obtain st' dm' dv' w' where
    rec: "rollout_loop e acts (Suc t) n (?st, ?dm, ?dv, w1) = Inr (st', dm', dv', w')"
    and later: "\<And>i. Suc t < i \<Longrightarrow> i \<le> Suc t + n \<Longrightarrow>
        is_t3 E C D (st' ! i) \<and> is_t3 E C D (dm' ! i) \<and> is_t3 E C D (dv' ! i)"
    by blast
  have "\<forall>i \<le> Suc t. st' ! i = ?st ! i \<and> dm' ! i = ?dm ! i \<and> dv' ! i = ?dv ! i"
    by (rule rollout_loop_frame [OF rec, of L]) (use Suc.prems in simp_all)
  then have at: "st' ! Suc t = ?nxt" "dm' ! Suc t = delta_mean" "dv' ! Suc t = delta_var"
    using tL Suc.prems by simp_all
  have "rollout_loop e acts t (Suc n) (st, dm, dv, w) = Inr (st', dm', dv', w')"
    using inr ens smp nxt rec by simp
  moreover have "\<forall>i. t < i \<and> i \<le> t + Suc n \<longrightarrow>
        is_t3 E C D (st' ! i) \<and> is_t3 E C D (dm' ! i) \<and> is_t3 E C D (dv' ! i)"
  proof (intro allI impI)
    fix i assume i: "t < i \<and> i \<le> t + Suc n"
    show "is_t3 E C D (st' ! i) \<and> is_t3 E C D (dm' ! i) \<and> is_t3 E C D (dv' ! i)"
    proof (cases "i = Suc t")
      case True
      then show ?thesis using at shn sh by simp
    next
      case False
      then show ?thesis using i later [of i] by simp
    qed
  qed
  ultimately show ?case by blast
qed

lemma sig_mat: "is_mat m k r \<Longrightarrow> map length r = replicate m k"
proof -
  assume a: "is_mat m k r"
  then have "map length r = map (\<lambda>_. k) r"
    by (intro map_cong) (simp_all add: is_mat_def)
  then show ?thesis using a by (simp add: map_replicate_const is_mat_def)
qed

lemma sig_t3: "is_t3 n m k x \<Longrightarrow> map (map length) x = replicate n (replicate m k)"
proof -
  assume a: "is_t3 n m k x"
  then have "map (map length) x = map (\<lambda>_. replicate m k) x"
    by (intro map_cong) (simp_all add: is_t3_def sig_mat)
  then show ?thesis using a by (simp add: map_replicate_const is_t3_def)
qed

lemma stack3_ok:
  assumes "xs \<noteq> []" and "\<And>x. x \<in> set xs \<Longrightarrow> is_t3 n m k x"
  shows "stack3 xs = Inr xs"
proof -
  obtain x xs' where xs: "xs = x # xs'" using assms(1) by (cases xs) auto
  have x: "map (map length) x = replicate n (replicate m k)"
    using assms(2) [of x] xs by (intro sig_t3) simp
  have same: "\<forall>y \<in> set xs. map (map length) y = map (map length) x"
  proof
    fix y assume "y \<in> set xs"
    then have "map (map length) y = replicate n (replicate m k)"
      by (intro sig_t3 assms(2))
    then show "map (map length) y = map (map length) x"
      by (simp only: x)
  qed
  have "stack3 xs =
      (if \<forall>y \<in> set xs. map (map length) y = map (map length) x then Inr xs
       else Inl RuntimeError)"
    by (simp only: stack3_def xs list.case)
  also have "\<dots> = Inr xs"
    using same by (rule if_P)
  finally show ?thesis .
qed

text \<open>
  Claim C10. When the ensemble has a member, the action tensor that the rollout indexes
  by timestep has one entry per timestep of the sampled actions, and its entry at
  timestep \<open>t\<close> is the \<open>(C, A)\<close> slice \<open>actions ! t\<close> repeated once per member: any two
  members get the same rows. By \<open>perform_rollout_steps\<close> this entry is what the ensemble
  is called with at timestep \<open>t\<close>.
\<close>

theorem rollout_actions_replicated:
  assumes "0 < ensemble_size p"
  shows "length (rollout_actions p actions) = length actions \<and>
    (\<forall>t < length actions.
       rollout_actions p actions ! t = replicate (ensemble_size p) (actions ! t) \<and>
       (\<forall>e1 < ensemble_size p. \<forall>e2 < ensemble_size p.
          rollout_actions p actions ! t ! e1 = rollout_actions p actions ! t ! e2))"
  using assms by (simp add: rollout_actions_eq)

lemma is_t3_replicate: "is_mat m k x \<Longrightarrow> is_t3 n m k (replicate n x)"
  by (simp add: is_t3_def)

lemma perform_rollout_ok:
  assumes H: "0 < plan_horizon p" and E: "0 < ensemble_size p"
    and cur: "is_t3 (ensemble_size p) C D current_state"
    and act: "is_t3 (plan_horizon p) C A actions"
    and ok: "ensemble_ok e (ensemble_size p) C D A"
  shows "\<exists>states delta_vars delta_means w'.
    perform_rollout e p current_state actions w = Inr (states, delta_vars, delta_means, w') \<and>
    is_t4 (plan_horizon p) (ensemble_size p) C D states \<and>
    is_t4 (plan_horizon p) (ensemble_size p) C D delta_vars \<and>
    is_t4 (plan_horizon p) (ensemble_size p) C D delta_means \<and>
    add3 current_state (fst (ensemble_sample e (delta_means ! 0) (delta_vars ! 0) w)) = Inr (states ! 0)"
proof -
  let ?H = "plan_horizon p" and ?E = "ensemble_size p"
  let ?acts = "rollout_actions p actions"
  let ?st0 = "(replicate (?H + 1) [])[0 := current_state]"
  let ?z = "replicate (?H + 1) []"
  have lenA: "length actions = ?H" using act by (simp add: is_t3_def)
  have acts: "?acts = map (replicate ?E) actions" using E by (rule rollout_actions_eq)
  have acts_sh: "is_t3 ?E C A (?acts ! i)" if "i < length ?acts" for i
  proof -
    have "is_mat C A (actions ! i)" using act that acts by (simp add: is_t3_def)
    then show ?thesis using that acts by (simp add: is_t3_replicate)
  qed
  have "\<exists>st' dm' dv' w'. rollout_loop e ?acts 0 ?H (?st0, ?z, ?z, w) = Inr (st', dm', dv', w') \<and>
    (\<forall>i. 0 < i \<and> i \<le> 0 + ?H \<longrightarrow>
        is_t3 ?E C D (st' ! i) \<and> is_t3 ?E C D (dm' ! i) \<and> is_t3 ?E C D (dv' ! i))"
    by (rule rollout_loop_ok [OF ok, where L = "?H + 1"])
       (use acts lenA cur acts_sh in simp_all)
  then obtain st' dm' dv' w' where
    loop: "rollout_loop e ?acts 0 ?H (?st0, ?z, ?z, w) = Inr (st', dm', dv', w')"
    and sh: "\<And>i. 0 < i \<Longrightarrow> i \<le> ?H \<Longrightarrow>
        is_t3 ?E C D (st' ! i) \<and> is_t3 ?E C D (dm' ! i) \<and> is_t3 ?E C D (dv' ! i)"
    by auto
  have len: "length st' = ?H + 1" "length dm' = ?H + 1" "length dv' = ?H + 1"
    using rollout_loop_inv [OF loop, of "?H + 1"] by simp_all
  have tl_sh: "is_t4 ?H ?E C D (tl xs)"
    if "length xs = ?H + 1" and "\<And>i. 0 < i \<Longrightarrow> i \<le> ?H \<Longrightarrow> is_t3 ?E C D (xs ! i)"
    for xs :: "tensor3 list"
  proof -
    have "is_t3 ?E C D x" if "x \<in> set (tl xs)" for x
    proof -
      from that obtain i where "i < length (tl xs)" "x = tl xs ! i"
        by (auto simp: in_set_conv_nth)
      then show ?thesis
        using \<open>length xs = ?H + 1\<close> that(1) \<open>\<And>i. 0 < i \<Longrightarrow> i \<le> ?H \<Longrightarrow> is_t3 ?E C D (xs ! i)\<close> [of "Suc i"]
        by (simp add: nth_tl)
    qed
    then show ?thesis using \<open>length xs = ?H + 1\<close> by (simp add: is_t4_def)
  qed
  have t4: "is_t4 ?H ?E C D (tl st')" "is_t4 ?H ?E C D (tl dv')" "is_t4 ?H ?E C D (tl dm')"
    using len sh by (auto intro!: tl_sh)
  have stack: "stack3 ys = Inr ys" if "is_t4 ?H ?E C D ys" for ys
  proof (rule stack3_ok)
    show "ys \<noteq> []" using that H by (auto simp: is_t4_def)
    show "is_t3 ?E C D x" if "x \<in> set ys" for x
      using that \<open>is_t4 ?H ?E C D ys\<close> by (simp add: is_t4_def)
  qed
  have res: "perform_rollout e p current_state actions w = Inr (tl st', tl dv', tl dm', w')"
    unfolding perform_rollout_def Let_def
    using loop stack [OF t4(1)] stack [OF t4(2)] stack [OF t4(3)] by simp
  from perform_rollout_steps [OF res] H
  have "add3 current_state (fst (ensemble_sample e (tl dm' ! 0) (tl dv' ! 0) w)) = Inr (tl st' ! 0)"
    by (auto simp: Let_def)
  with res t4 show ?thesis by blast
qed

lemma demo_rollout:
  "perform_rollout demo_env demo_planner demo_state demo_actions 0 =
     Inr (demo_states, demo_deltas, demo_deltas, 2)"
  by (simp add: perform_rollout_def demo_env_def demo_planner_def demo_state_def demo_actions_def
      demo_states_def demo_deltas_def
      rollout_actions_def permute10_def repeat0_def unsqueeze0_def numeral_2_eq_2
      add3_def broadcast_def stack3_def)

text \<open>
  Claim C4. Whenever \<open>perform_rollout\<close> returns, its three trajectories obey the
  recurrence: at every timestep \<open>t\<close> below the horizon, the ensemble called on the
  current state (the initial state for \<open>t = 0\<close>, else entry \<open>t - 1\<close> of the states) and
  the actions of timestep \<open>t\<close> gave entry \<open>t\<close> of the means and of the variances, and
  entry \<open>t\<close> of the states is the current state plus the sample drawn from them. \<open>ws\<close>
  is the outside state before each step: every sample is drawn in the state the previous
  one left.
\<close>

theorem perform_rollout_recurrence:
  assumes "perform_rollout e p current_state actions w = Inr (states, delta_vars, delta_means, w')"
  shows "\<exists>ws. ws 0 = w \<and> ws (plan_horizon p) = w' \<and>
    (\<forall>t < plan_horizon p.
       t < length (rollout_actions p actions) \<and>
       (let x = (if t = 0 then current_state else states ! (t - 1)) in
          ensemble e x (rollout_actions p actions ! t) = (delta_means ! t, delta_vars ! t) \<and>
          add3 x (fst (ensemble_sample e (delta_means ! t) (delta_vars ! t) (ws t))) = Inr (states ! t) \<and>
          ws (Suc t) = snd (ensemble_sample e (delta_means ! t) (delta_vars ! t) (ws t))))"
  using assms by (rule perform_rollout_steps)

theorem perform_rollout_recurrence_witness:
  "\<exists>ws. ws 0 = 0 \<and> ws (plan_horizon demo_planner) = 2 \<and>
    (\<forall>t < plan_horizon demo_planner.
       t < length (rollout_actions demo_planner demo_actions) \<and>
       (let x = (if t = 0 then demo_state else demo_states ! (t - 1)) in
          ensemble demo_env x (rollout_actions demo_planner demo_actions ! t)
            = (demo_deltas ! t, demo_deltas ! t) \<and>
          add3 x (fst (ensemble_sample demo_env (demo_deltas ! t) (demo_deltas ! t) (ws t)))
            = Inr (demo_states ! t) \<and>
          ws (Suc t) = snd (ensemble_sample demo_env (demo_deltas ! t) (demo_deltas ! t) (ws t))))"
  by (rule perform_rollout_recurrence [OF demo_rollout])

text \<open>
  Claim C5. With a positive horizon and a non-empty ensemble that keeps its contract,
  \<open>perform_rollout\<close> on a state of shape \<open>(E, C, D)\<close> and actions of shape \<open>(H, C, A)\<close>
  returns; the three tensors have shape \<open>(H, E, C, D)\<close>; and the first entry of the
  states is the state after the first step, not the initial state.
\<close>

theorem perform_rollout_shape:
  assumes "0 < plan_horizon p" and "0 < ensemble_size p"
    and "is_t3 (ensemble_size p) C D current_state"
    and "is_t3 (plan_horizon p) C A actions"
    and "ensemble_ok e (ensemble_size p) C D A"
  shows "\<exists>states delta_vars delta_means w'.
    perform_rollout e p current_state actions w = Inr (states, delta_vars, delta_means, w') \<and>
    is_t4 (plan_horizon p) (ensemble_size p) C D states \<and>
    is_t4 (plan_horizon p) (ensemble_size p) C D delta_vars \<and>
    is_t4 (plan_horizon p) (ensemble_size p) C D delta_means \<and>
    add3 current_state (fst (ensemble_sample e (delta_means ! 0) (delta_vars ! 0) w)) = Inr (states ! 0)"
  using assms by (rule perform_rollout_ok)

theorem perform_rollout_shape_witness:
  "\<exists>states delta_vars delta_means w'.
     perform_rollout demo_env demo_planner demo_state demo_actions 0 =
       Inr (states, delta_vars, delta_means, w') \<and>
     is_t4 2 2 2 1 states \<and> is_t4 2 2 2 1 delta_vars \<and> is_t4 2 2 2 1 delta_means \<and>
     add3 demo_state (fst (ensemble_sample demo_env (delta_means ! 0) (delta_vars ! 0) 0)) =
       Inr (states ! 0)"
proof -
  have "is_t3 (ensemble_size demo_planner) 2 1 demo_state"
    by (simp add: demo_planner_def demo_state_def is_t3_def is_mat_def)
  moreover have "is_t3 (plan_horizon demo_planner) 2 1 demo_actions"
    by (simp add: demo_planner_def demo_actions_def is_t3_def is_mat_def)
  moreover have "ensemble_ok demo_env (ensemble_size demo_planner) 2 1 1"
    by (simp add: ensemble_ok_def demo_env_def)
  moreover have "0 < plan_horizon demo_planner" "0 < ensemble_size demo_planner"
    by (simp_all add: demo_planner_def)
  ultimately show ?thesis
    using perform_rollout_shape [of demo_planner 2 1 demo_state 1 demo_actions demo_env 0]
    by (simp add: demo_planner_def)
qed

theorem rollout_actions_replicated_witness:
  "rollout_actions demo_planner demo_actions ! 1 = replicate 2 (demo_actions ! 1) \<and>
   rollout_actions demo_planner demo_actions ! 1 ! 0 = rollout_actions demo_planner demo_actions ! 1 ! 1"
proof -
  have "0 < ensemble_size demo_planner" by (simp add: demo_planner_def)
  from rollout_actions_replicated [OF this, of demo_actions] show ?thesis
    by (simp add: demo_planner_def demo_actions_def)
qed

section \<open>Elite selection\<close>

lemma length_nan_to_zero: "length (nan_to_zero r) = length r"
  by (simp add: nan_to_zero_def)

lemma mset_selected_rest:
  assumes "distinct idx" and "\<forall>i \<in> set idx. i < length xs"
  shows "mset xs = mset (map ((!) xs) idx) + mset (map ((!) xs) (filter (\<lambda>j. j \<notin> set idx) [0..<length xs]))"
proof -
  let ?n = "length xs"
  have "set (filter (\<lambda>j. j \<in> set idx) [0..<?n]) = set idx"
    using assms(2) by auto
  then have sel: "mset (filter (\<lambda>j. j \<in> set idx) [0..<?n]) = mset idx"
    using assms(1) by (metis distinct_filter distinct_upt set_eq_iff_mset_eq_distinct)
  have "mset [0..<?n] =
        mset (filter (\<lambda>j. j \<in> set idx) [0..<?n]) + mset (filter (\<lambda>j. j \<notin> set idx) [0..<?n])"
    by (simp only: mset_filter multiset_partition [symmetric])
  then have "mset [0..<?n] = mset idx + mset (filter (\<lambda>j. j \<notin> set idx) [0..<?n])"
    by (simp only: sel)
  then have "image_mset ((!) xs) (mset [0..<?n]) =
        image_mset ((!) xs) (mset idx + mset (filter (\<lambda>j. j \<notin> set idx) [0..<?n]))"
    by (rule arg_cong)
  moreover have "image_mset ((!) xs) (mset [0..<?n]) = mset xs"
    by (simp only: mset_map [symmetric] map_nth)
  ultimately show ?thesis by simp
qed

lemma is_topk_values:
  fixes xs :: vec
  assumes "is_topk k xs idx"
  shows "mset (map ((!) xs) idx) = mset (take k (rev (sort xs)))"
proof -
  let ?rest = "filter (\<lambda>j. j \<notin> set idx) [0..<length xs]"
  let ?S = "map ((!) xs) idx" and ?R = "map ((!) xs) ?rest"
  from assms have len: "length idx = k" and dist: "distinct idx"
    and rng: "\<forall>i \<in> set idx. i < length xs"
    by (simp_all add: is_topk_def)
  have top: "xs ! j \<le> xs ! i" if "i \<in> set idx" "j < length xs" "j \<notin> set idx" for i j
  proof -
    have "j \<in> set [0..<length xs]" using that by simp
    with assms that show ?thesis unfolding is_topk_def by blast
  qed
  have part: "mset xs = mset ?S + mset ?R"
    using dist rng by (rule mset_selected_rest)
  have le: "x \<le> y" if "x \<in> set ?R" "y \<in> set ?S" for x y
    using that top by auto
  have srt: "sorted (sort ?R @ sort ?S)"
    using le by (simp add: sorted_append)
  have perm: "mset (sort ?R @ sort ?S) = mset xs"
    using part by simp
  have "sort xs = sort ?R @ sort ?S"
    using perm srt by (rule properties_for_sort)
  then have "rev (sort xs) = rev (sort ?S) @ rev (sort ?R)"
    by simp
  then have "take k (rev (sort xs)) = rev (sort ?S)"
    using len by simp
  then show ?thesis by simp
qed

lemma topk_sorted_is_topk:
  fixes xs :: vec
  assumes "k \<le> length xs"
  shows "is_topk k xs (topk_sorted k xs)"
proof -
  let ?n = "length xs" and ?f = "\<lambda>i. xs ! i"
  let ?l = "sort_key ?f [0..<?n]"
  have idx: "topk_sorted k xs = rev (drop (?n - k) ?l)"
    using assms by (simp add: topk_sorted_def take_rev)
  have dl: "distinct ?l" and sl: "set ?l = {0..<?n}" and ll: "length ?l = ?n"
    by simp_all
  have srt: "sorted (map ?f (take (?n - k) ?l) @ map ?f (drop (?n - k) ?l))"
    by (simp only: map_append [symmetric] append_take_drop_id sorted_sort_key)
  have split: "set ?l = set (take (?n - k) ?l) \<union> set (drop (?n - k) ?l)"
    by (simp only: set_append [symmetric] append_take_drop_id)
  have below: "\<forall>x \<in> set (map ?f (take (?n - k) ?l)). \<forall>y \<in> set (map ?f (drop (?n - k) ?l)). x \<le> y"
    using srt unfolding sorted_append by blast
  have "length (topk_sorted k xs) = k"
    using assms by (simp add: idx)
  moreover have "distinct (topk_sorted k xs)"
    by (simp add: idx distinct_drop)
  moreover have rng: "\<forall>i \<in> set (topk_sorted k xs). i < ?n"
  proof
    fix i assume "i \<in> set (topk_sorted k xs)"
    then have "i \<in> set ?l" unfolding idx by (auto dest: in_set_dropD)
    then show "i < ?n" by simp
  qed
  moreover have "\<forall>i \<in> set (topk_sorted k xs). \<forall>j \<in> set [0..<?n].
      j \<in> set (topk_sorted k xs) \<or> xs ! j \<le> xs ! i"
  proof (intro ballI)
    fix i j assume i: "i \<in> set (topk_sorted k xs)" and j: "j \<in> set [0..<?n]"
    show "j \<in> set (topk_sorted k xs) \<or> xs ! j \<le> xs ! i"
    proof (cases "j \<in> set (topk_sorted k xs)")
      case False
      have "j \<in> set ?l" using j by simp
      then have "j \<in> set (take (?n - k) ?l) \<union> set (drop (?n - k) ?l)"
        by (simp only: split [symmetric])
      moreover have "j \<notin> set (drop (?n - k) ?l)"
        using False unfolding idx by simp
      ultimately have "j \<in> set (take (?n - k) ?l)"
        by blast
      moreover have "i \<in> set (drop (?n - k) ?l)" using i unfolding idx by simp
      ultimately have "?f j \<in> set (map ?f (take (?n - k) ?l))"
        and "?f i \<in> set (map ?f (drop (?n - k) ?l))"
        by (simp_all only: set_map imageI)
      then have "?f j \<le> ?f i"
        using below by blast
      then show ?thesis by simp
    qed simp
  qed
  ultimately show ?thesis by (simp add: is_topk_def)
qed

lemma topk_sorted_contract: "topk_contract topk_sorted"
  by (simp add: topk_contract_def topk_sorted_is_topk)

lemma demo_normalised: "nan_to_zero demo_returns = [Fin 1, Fin 5, Fin 0, Fin 9, Fin 2]"
  by (simp add: nan_to_zero_def demo_returns_def)

lemma demo_sorted: "sort [Fin 1, Fin 5, Fin 0, Fin 9, Fin 2] = [Fin 0, Fin 1, Fin 2, Fin 5, Fin 9]"
  by simp

lemma demo_topk: "topk_sorted 2 [Fin 1, Fin 5, Fin 0, Fin 9, Fin 2] = [3, 1]"
  by (simp add: topk_sorted_def upt_rec [of 0] upt_rec [of 1] upt_rec [of 2] upt_rec [of 3] upt_rec [of 4] upt_rec [of 5])

lemma demo_elite: "elite_indices demo_env demo_selector demo_returns = Inr [3, 1]"
  by (simp add: elite_indices_def demo_normalised topk_def demo_env_def demo_selector_def
      demo_planner_def demo_topk)

text \<open>
  Claim C2. When the library's top-k keeps its promise and the selection of an iteration
  returns, it returns exactly \<open>top_candidates\<close> distinct indices of candidates, and the
  normalised returns at these indices are, as a multiset, the \<open>top_candidates\<close> largest
  normalised returns: the first \<open>top_candidates\<close> entries of the returns sorted downwards.
  Nothing is said of the order of the indices or of the choice among equal returns.
\<close>

theorem elite_indices_largest:
  assumes "topk_contract (topk_choice e)"
    and "elite_indices e p returns = Inr idx"
  shows "length idx = top_candidates p \<and> distinct idx \<and> (\<forall>i \<in> set idx. i < length returns) \<and>
    mset (map ((!) (nan_to_zero returns)) idx)
      = mset (take (top_candidates p) (rev (sort (nan_to_zero returns))))"
proof -
  let ?r = "nan_to_zero returns" and ?k = "top_candidates p"
  from assms(2) have k: "?k \<le> length ?r" and idx: "idx = topk_choice e ?k ?r"
    by (auto simp: elite_indices_def topk_def Let_def split: if_splits)
  from assms(1) k have tk: "is_topk ?k ?r idx"
    unfolding topk_contract_def idx by blast
  then have "length idx = ?k" "distinct idx" "\<forall>i \<in> set idx. i < length returns"
    by (simp_all add: is_topk_def length_nan_to_zero)
  moreover have "mset (map ((!) ?r) idx) = mset (take ?k (rev (sort ?r)))"
    using tk by (rule is_topk_values)
  ultimately show ?thesis by simp
qed

theorem elite_indices_largest_witness:
  "length [3, 1 :: nat] = top_candidates demo_selector \<and> distinct [3, 1 :: nat] \<and>
   mset (map ((!) (nan_to_zero demo_returns)) [3, 1])
      = mset (take (top_candidates demo_selector) (rev (sort (nan_to_zero demo_returns)))) \<and>
   map ((!) (nan_to_zero demo_returns)) [3, 1] = [Fin 9, Fin 5]"
proof -
  have "topk_contract (topk_choice demo_env)"
    by (simp add: demo_env_def topk_sorted_contract)
  from elite_indices_largest [OF this demo_elite] show ?thesis
    by (simp add: demo_normalised)
qed

lemma iadd_length: "iadd r x = Inr y \<Longrightarrow> length y = length r"
  by (auto simp: iadd_def split: if_splits)

lemma exploration_returns_length:
  "exploration_returns e p dm dv r w = Inr (r', w') \<Longrightarrow> length r' = length r"
  by (auto simp: exploration_returns_def Let_def split: prod.splits sum.splits dest: iadd_length)

lemma score_candidates_length:
  assumes "score_candidates e p sz states dvs dms w = Inr (returns, p', w')"
  shows "length returns = n_candidates p"
proof -
  let ?z = "replicate (n_candidates p) (Fin 0)"
  obtain base w1 where base:
    "(if use_exploration p then exploration_returns e p dms dvs ?z w else Inr (?z, w)) = Inr (base, w1)"
    using assms unfolding score_candidates_def Let_def
    by (cases "if use_exploration p then exploration_returns e p dms dvs ?z w else Inr (?z, w)") auto
  then have lb: "length base = n_candidates p"
    by (auto split: if_splits dest: exploration_returns_length)
  show ?thesis
  proof (cases "use_reward p")
    case True
    with assms base obtain rewards where "iadd base rewards = Inr returns"
      unfolding score_candidates_def Let_def by (auto split: sum.splits)
    then show ?thesis using lb by (auto dest: iadd_length)
  next
    case False
    with assms base have "returns = base"
      unfolding score_candidates_def Let_def by auto
    then show ?thesis using lb by simp
  qed
qed

lemma cem_iteration_Inr:
  assumes "cem_iteration e sz state (am, asd, p, w) = Inr (am', asd', p', w')"
  shows "\<exists>noise w1 states dvs dms w2 returns idx best.
    randn3 (normal_draw e) (plan_horizon p) (n_candidates p) (action_size p) w = (noise, w1) \<and>
    perform_rollout e p state (sample_actions am asd noise) w1 = Inr (states, dvs, dms, w2) \<and>
    score_candidates e p sz states dvs dms w2 = Inr (returns, p', w') \<and>
    elite_indices e p returns = Inr idx \<and>
    best_actions p (sample_actions am asd noise) idx = Inr best \<and>
    (am', asd') = refit p best"
  using assms unfolding cem_iteration_def Let_def
  by (auto split: prod.splits sum.splits)

text \<open>
  Claim C3. The vector that top-k selects from is the returns vector with every NaN
  entry replaced by \<open>Fin 0\<close> and every other entry unchanged; it has one entry per
  candidate and no NaN. The selection raises only when \<open>top_candidates\<close> exceeds the
  number of candidates, whatever the entries are. A candidate whose return was NaN
  competes with return 0: it is selected, or every selected candidate has a normalised
  return of at least 0. In an iteration that returns, the vector normalised is the one
  that \<open>score_candidates\<close> returned, after both contributions, one entry per candidate.
\<close>

theorem nan_returns_normalised:
  "length (nan_to_zero returns) = length returns \<and>
   (\<forall>i < length returns.
      nan_to_zero returns ! i = (if isnan (returns ! i) then Fin 0 else returns ! i)) \<and>
   (\<forall>x \<in> set (nan_to_zero returns). \<not> isnan x) \<and>
   elite_indices e p returns = topk (topk_choice e) (top_candidates p) (nan_to_zero returns) \<and>
   (top_candidates p \<le> length returns \<longrightarrow>
      elite_indices e p returns = Inr (topk_choice e (top_candidates p) (nan_to_zero returns))) \<and>
   (topk_contract (topk_choice e) \<longrightarrow>
      (\<forall>idx. elite_indices e p returns = Inr idx \<longrightarrow>
         (\<forall>i < length returns. isnan (returns ! i) \<longrightarrow>
            i \<in> set idx \<or> (\<forall>j \<in> set idx. Fin 0 \<le> nan_to_zero returns ! j)))) \<and>
   (\<forall>sz state am asd w am' asd' p' w'.
      cem_iteration e sz state (am, asd, p, w) = Inr (am', asd', p', w') \<longrightarrow>
      (\<exists>states dvs dms w2 scored idx.
         score_candidates e p sz states dvs dms w2 = Inr (scored, p', w') \<and>
         length scored = n_candidates p \<and>
         topk (topk_choice e) (top_candidates p) (nan_to_zero scored) = Inr idx))"
proof (intro conjI)
  show "length (nan_to_zero returns) = length returns"
    by (rule length_nan_to_zero)
  show "\<forall>i < length returns.
      nan_to_zero returns ! i = (if isnan (returns ! i) then Fin 0 else returns ! i)"
    by (simp add: nan_to_zero_def)
  show "\<forall>x \<in> set (nan_to_zero returns). \<not> isnan x"
    by (auto simp: nan_to_zero_def)
  show sel: "elite_indices e p returns = topk (topk_choice e) (top_candidates p) (nan_to_zero returns)"
    by (simp add: elite_indices_def)
  show "top_candidates p \<le> length returns \<longrightarrow>
      elite_indices e p returns = Inr (topk_choice e (top_candidates p) (nan_to_zero returns))"
    by (simp add: elite_indices_def topk_def length_nan_to_zero)
  show "topk_contract (topk_choice e) \<longrightarrow>
      (\<forall>idx. elite_indices e p returns = Inr idx \<longrightarrow>
         (\<forall>i < length returns. isnan (returns ! i) \<longrightarrow>
            i \<in> set idx \<or> (\<forall>j \<in> set idx. Fin 0 \<le> nan_to_zero returns ! j)))"
  proof (intro impI allI)
    fix idx i
    assume c: "topk_contract (topk_choice e)" and el: "elite_indices e p returns = Inr idx"
      and i: "i < length returns" and nan: "isnan (returns ! i)"
    let ?r = "nan_to_zero returns"
    from el have "top_candidates p \<le> length ?r" "idx = topk_choice e (top_candidates p) ?r"
      by (auto simp: elite_indices_def topk_def Let_def split: if_splits)
    with c have tk: "is_topk (top_candidates p) ?r idx"
      unfolding topk_contract_def by blast
    have zero: "?r ! i = Fin 0" using i nan by (simp add: nan_to_zero_def)
    show "i \<in> set idx \<or> (\<forall>j \<in> set idx. Fin 0 \<le> ?r ! j)"
    proof (cases "i \<in> set idx")
      case False
      have "i \<in> set [0..<length ?r]" using i by (simp add: length_nan_to_zero)
      then have "\<forall>j \<in> set idx. ?r ! i \<le> ?r ! j"
        using tk False unfolding is_topk_def by blast
      then show ?thesis by (simp only: zero) simp
    qed simp
  qed
  show "\<forall>sz state am asd w am' asd' p' w'.
      cem_iteration e sz state (am, asd, p, w) = Inr (am', asd', p', w') \<longrightarrow>
      (\<exists>states dvs dms w2 scored idx.
         score_candidates e p sz states dvs dms w2 = Inr (scored, p', w') \<and>
         length scored = n_candidates p \<and>
         topk (topk_choice e) (top_candidates p) (nan_to_zero scored) = Inr idx)"
  proof (intro allI impI)
    fix sz state am asd w am' asd' p' w'
    assume "cem_iteration e sz state (am, asd, p, w) = Inr (am', asd', p', w')"
    from cem_iteration_Inr [OF this] obtain states dvs dms w2 scored idx where
      sc: "score_candidates e p sz states dvs dms w2 = Inr (scored, p', w')"
      and el: "elite_indices e p scored = Inr idx"
      by blast
    have "length scored = n_candidates p" using sc by (rule score_candidates_length)
    moreover have "topk (topk_choice e) (top_candidates p) (nan_to_zero scored) = Inr idx"
      using el by (simp add: elite_indices_def)
    ultimately show "\<exists>states dvs dms w2 scored idx.
         score_candidates e p sz states dvs dms w2 = Inr (scored, p', w') \<and>
         length scored = n_candidates p \<and>
         topk (topk_choice e) (top_candidates p) (nan_to_zero scored) = Inr idx"
      using sc by blast
  qed
qed

section \<open>The optimisation loop\<close>

lemma draws_length: "length (fst (draws d n s)) = n"
proof (induction n arbitrary: s)
  case 0
  show ?case by simp
next
  case (Suc n)
  obtain x s1 where d: "d s = (x, s1)" by (cases "d s")
  obtain xs s2 where r: "draws d n s1 = (xs, s2)" by (cases "draws d n s1")
  have "length xs = n" using Suc [of s1] r by simp
  then show ?case using d r by simp
qed

lemma draws_all:
  assumes "\<And>s. P (fst (d s))"
  shows "\<forall>x \<in> set (fst (draws d n s)). P x"
proof (induction n arbitrary: s)
  case 0
  show ?case by simp
next
  case (Suc n)
  obtain x s1 where d: "d s = (x, s1)" by (cases "d s")
  obtain xs s2 where r: "draws d n s1 = (xs, s2)" by (cases "draws d n s1")
  have "P x" using assms [of s] d by simp
  moreover have "\<forall>y \<in> set xs. P y" using Suc [of s1] r by simp
  ultimately show ?case using d r by simp
qed

lemma randn3_shape: "is_t3 h c a (fst (randn3 d h c a w))"
proof -
  let ?scalar = "\<lambda>s. case d s of (x, s') \<Rightarrow> (Fin x, s')"
  have row: "length (fst (draws ?scalar a s)) = a" for s
    by (rule draws_length)
  have mat: "is_mat c a (fst (draws (draws ?scalar a) c s))" for s
    unfolding is_mat_def
    by (intro conjI draws_length draws_all row)
  show ?thesis
    unfolding is_t3_def randn3_def
    by (intro conjI draws_length draws_all mat)
qed


lemma sample_actions_length:
  "length am = h \<Longrightarrow> length asd = h \<Longrightarrow> length noise = h \<Longrightarrow>
     length (sample_actions am asd noise) = h"
  by (simp add: sample_actions_def)

lemma sample_actions_nth:
  assumes "t < length am" "t < length asd" "t < length noise"
  shows "sample_actions am asd noise ! t =
     map (\<lambda>row. map2 fadd (am ! t) (map2 fmul (asd ! t) row)) (noise ! t)"
  using assms by (simp add: sample_actions_def)

lemma sample_actions_shape:
  assumes "is_mat h a am" "is_mat h a asd" "is_t3 h c a noise"
  shows "is_t3 h c a (sample_actions am asd noise)"
proof -
  have len: "length am = h" "length asd = h" "length noise = h"
    using assms by (simp_all add: is_mat_def is_t3_def)
  have "is_mat c a m" if "m \<in> set (sample_actions am asd noise)" for m
  proof -
    from that len obtain t where t: "t < h" and m: "m = sample_actions am asd noise ! t"
      by (auto simp: in_set_conv_nth sample_actions_length)
    have la: "length (am ! t) = a" "length (asd ! t) = a" and nm: "is_mat c a (noise ! t)"
      using assms t by (simp_all add: is_mat_nth is_t3_nth)
    have "m = map (\<lambda>row. map2 fadd (am ! t) (map2 fmul (asd ! t) row)) (noise ! t)"
      unfolding m using t len by (intro sample_actions_nth) simp_all
    then show ?thesis using la nm by (auto simp: is_mat_def)
  qed
  then show ?thesis
    using len by (simp add: is_t3_def sample_actions_length)
qed

lemma chunks_concat:
  "length xss = k \<Longrightarrow> (\<forall>xs \<in> set xss. length xs = n) \<Longrightarrow> chunks k n (concat xss) = xss"
proof (induction xss arbitrary: k)
  case Nil
  then show ?case by simp
next
  case (Cons xs xss)
  then obtain k' where k: "k = Suc k'" by (cases k) auto
  have "chunks k' n (concat xss) = xss"
    using Cons.prems k by (intro Cons.IH) simp_all
  then show ?case using Cons.prems k by simp
qed

lemma length_concat_mat: "is_mat n m x \<Longrightarrow> length (concat x) = n * m"
proof (induction x arbitrary: n)
  case Nil
  then show ?case by (simp add: is_mat_def)
next
  case (Cons r x)
  then obtain n' where n: "n = Suc n'" by (cases n) (auto simp: is_mat_def)
  have "is_mat n' m x" using Cons.prems n by (simp add: is_mat_def)
  then have "length (concat x) = n' * m" by (rule Cons.IH)
  then show ?case using Cons.prems n by (simp add: is_mat_def)
qed

lemma concat_t3: "is_t3 n m k x \<Longrightarrow> is_mat (n * m) k (concat x)"
proof -
  assume a: "is_t3 n m k x"
  then have "is_mat n m x" by (simp add: is_t3_def is_mat_def)
  then have "length (concat x) = n * m" by (rule length_concat_mat)
  moreover have "\<forall>r \<in> set (concat x). length r = k"
    using a by (auto simp: is_t3_def is_mat_def)
  ultimately show ?thesis by (simp add: is_mat_def)
qed

lemma concat_t4: "is_t4 n m k l x \<Longrightarrow> is_t3 (n * m) k l (concat x)"
proof -
  assume a: "is_t4 n m k l x"
  then have "is_mat n m x" by (simp add: is_t4_def is_t3_def is_mat_def)
  then have "length (concat x) = n * m" by (rule length_concat_mat)
  moreover have "\<forall>r \<in> set (concat x). is_mat k l r"
    using a by (auto simp: is_t4_def is_t3_def)
  ultimately show ?thesis by (simp add: is_t3_def)
qed

lemma view_rows_concat:
  assumes "0 < d" and "\<forall>r \<in> set rows. length r = d"
  shows "view_rows d (concat rows) = Inr rows"
proof -
  have "is_mat (length rows) d rows" using assms(2) by (simp add: is_mat_def)
  then have len: "length (concat rows) = length rows * d" by (rule length_concat_mat)
  have "chunks (length rows) d (concat rows) = rows"
    using assms(2) by (intro chunks_concat) simp_all
  then show ?thesis using assms(1) len by (simp add: view_rows_def)
qed

lemma concat_concat_map: "concat (concat xss) = concat (map concat xss)"
  by (induction xss) simp_all

lemma view3_concat:
  assumes "is_t3 h e c x"
  shows "view3 h e c (concat (concat x)) = Inr x"
proof -
  have m: "is_mat (h * e) c (concat x)" using assms by (rule concat_t3)
  then have len: "length (concat (concat x)) = h * e * c" by (rule length_concat_mat)
  have cc: "concat (concat x) = concat (map concat x)" by (rule concat_concat_map)
  have "length (concat r) = e * c" if "r \<in> set x" for r
    using assms that by (intro length_concat_mat) (simp add: is_t3_def)
  then have "chunks h (e * c) (concat (map concat x)) = map concat x"
    using assms by (intro chunks_concat) (simp_all add: is_t3_def)
  moreover have "map (chunks e c) (map concat x) = x"
  proof -
    have "chunks e c (concat r) = r" if "r \<in> set x" for r
      using assms that by (intro chunks_concat) (simp_all add: is_t3_def is_mat_def)
    then have "map (\<lambda>r. chunks e c (concat r)) x = map (\<lambda>r. r) x"
      by (intro map_cong) simp_all
    then show ?thesis by (simp add: comp_def)
  qed
  ultimately show ?thesis using len by (simp add: view3_def cc)
qed

lemma length_reduce_cols: "length (reduce_cols f n m) = n"
  by (simp add: reduce_cols_def)

lemma reduce_cols_nth: "j < n \<Longrightarrow> reduce_cols f n m ! j = f (column j m)"
  by (simp add: reduce_cols_def)

lemma is_mat_mean_dim1: "length x = h \<Longrightarrow> is_mat h a (mean_dim1 a x)"
  by (simp add: is_mat_def mean_dim1_def length_reduce_cols)

lemma is_mat_std_dim1: "length x = h \<Longrightarrow> is_mat h a (std_dim1 a x)"
  by (simp add: is_mat_def std_dim1_def length_reduce_cols)

lemma candidate_rewards_ok:
  assumes "0 < D" and "reward_ok e D"
    and "is_t4 (plan_horizon p) (ensemble_size p) (n_candidates p) D states"
  shows "\<exists>rw. candidate_rewards e p D states = Inr rw \<and> length rw = n_candidates p"
proof -
  let ?rows = "concat (concat states)"
  have "is_t3 (plan_horizon p * ensemble_size p) (n_candidates p) D (concat states)"
    using assms(3) by (rule concat_t4)
  then have rows: "is_mat (plan_horizon p * ensemble_size p * n_candidates p) D ?rows"
    by (rule concat_t3)
  then have rl: "\<forall>r \<in> set ?rows. length r = D" by (simp add: is_mat_def)
  then have vr: "view_rows D (concat ?rows) = Inr ?rows"
    using assms(1) by (intro view_rows_concat)
  have "length (reward_model e ?rows) = length ?rows"
    using assms(2) rl unfolding reward_ok_def by blast
  then have "length (reward_model e ?rows) = plan_horizon p * ensemble_size p * n_candidates p"
    using rows by (simp add: is_mat_def)
  then obtain rewards where
    "view3 (plan_horizon p) (ensemble_size p) (n_candidates p) (reward_model e ?rows) = Inr rewards"
    by (simp add: view3_def)
  then show ?thesis
    using vr by (simp add: candidate_rewards_def sum_dim0_def length_reduce_cols)
qed

lemma exploration_returns_ok:
  assumes "0 < H" and "is_mat H (length r) (fst (measure e dms dvs w))"
  shows "\<exists>r'. exploration_returns e p dms dvs r w = Inr (r', snd (measure e dms dvs w)) \<and>
            length r' = length r"
proof -
  obtain bonus w' where m: "measure e dms dvs w = (bonus, w')" by (cases "measure e dms dvs w")
  let ?b = "map (map (\<lambda>x. fmul x (expl_scale p))) bonus"
  have b: "is_mat H (length r) bonus" using assms(2) m by simp
  then obtain r0 rs where bs: "bonus = r0 # rs" and r0: "length r0 = length r"
    using assms(1) by (cases bonus) (auto simp: is_mat_def)
  have w: "width ?b = length r" using bs r0 by (simp add: width_def)
  have "iadd r (sum_dim0 (width ?b) ?b) = Inr (map2 fadd r (sum_dim0 (width ?b) ?b))"
    by (simp add: iadd_def w sum_dim0_def length_reduce_cols)
  then show ?thesis
    using m w by (simp add: exploration_returns_def Let_def sum_dim0_def length_reduce_cols)
qed

lemma score_candidates_ok:
  assumes H: "0 < plan_horizon p" and D: "0 < D" and rw: "reward_ok e D"
    and ms: "measure_ok e (plan_horizon p) (ensemble_size p) (n_candidates p) D"
    and st: "is_t4 (plan_horizon p) (ensemble_size p) (n_candidates p) D states"
    and dv: "is_t4 (plan_horizon p) (ensemble_size p) (n_candidates p) D dvs"
    and dm: "is_t4 (plan_horizon p) (ensemble_size p) (n_candidates p) D dms"
  shows "\<exists>returns l w'. score_candidates e p D states dvs dms w = Inr (returns, p\<lparr>reward_stats := l\<rparr>, w')"
proof -
  let ?z = "replicate (n_candidates p) (Fin 0)"
  have "\<exists>base w1. (if use_exploration p then exploration_returns e p dms dvs ?z w else Inr (?z, w))
      = Inr (base, w1) \<and> length base = n_candidates p"
  proof (cases "use_exploration p")
    case True
    have "is_mat (plan_horizon p) (length ?z) (fst (measure e dms dvs w))"
      using ms dm dv unfolding measure_ok_def by simp
    from exploration_returns_ok [OF H this, of p] True show ?thesis by auto
  next
    case False
    then show ?thesis by simp
  qed
  then obtain base w1 where base:
    "(if use_exploration p then exploration_returns e p dms dvs ?z w else Inr (?z, w)) = Inr (base, w1)"
    and lb: "length base = n_candidates p"
    by blast
  show ?thesis
  proof (cases "use_reward p")
    case True
    from candidate_rewards_ok [OF D rw st] obtain rewards where
      cr: "candidate_rewards e p D states = Inr rewards" and lr: "length rewards = n_candidates p"
      by blast
    have "iadd base rewards = Inr (map2 fadd base rewards)"
      using lb lr by (simp add: iadd_def)
    then have "score_candidates e p D states dvs dms w =
        Inr (map2 fadd base rewards, p\<lparr>reward_stats := reward_stats p @ [rewards]\<rparr>, w1)"
      unfolding score_candidates_def Let_def using base cr True by simp
    then show ?thesis by blast
  next
    case False
    have "score_candidates e p D states dvs dms w = Inr (base, p, w1)"
      unfolding score_candidates_def Let_def using base False by simp
    moreover have "p = p\<lparr>reward_stats := reward_stats p\<rparr>" by simp
    ultimately show ?thesis by metis
  qed
qed

lemma best_actions_ok:
  assumes act: "is_t3 (plan_horizon p) C (action_size p) actions"
    and idx: "\<forall>i \<in> set idx. i < C" and len: "length idx = top_candidates p"
  shows "best_actions p actions idx = Inr (map (\<lambda>m. map ((!) m) idx) actions) \<and>
    is_t3 (plan_horizon p) (top_candidates p) (action_size p) (map (\<lambda>m. map ((!) m) idx) actions)"
proof -
  let ?sel = "map (\<lambda>m. map ((!) m) idx) actions"
  have lm: "length m = C" if "m \<in> set actions" for m
    using act that by (simp add: is_t3_def is_mat_def)
  have row: "length (m ! i) = action_size p" if "m \<in> set actions" "i \<in> set idx" for m i
  proof -
    have "is_mat C (action_size p) m" using act that by (simp add: is_t3_def)
    moreover have "i < C" using idx that by simp
    ultimately show ?thesis by (rule is_mat_nth)
  qed
  have ix: "index_dim1 actions idx = Inr ?sel"
    using lm idx by (simp add: index_dim1_def)
  have sh: "is_t3 (plan_horizon p) (top_candidates p) (action_size p) ?sel"
    using act len row by (auto simp: is_t3_def is_mat_def)
  have "reshape3 (plan_horizon p) (top_candidates p) (action_size p) ?sel = Inr ?sel"
    unfolding reshape3_def using sh by (rule view3_concat)
  then show ?thesis using ix sh by (simp add: best_actions_def)
qed

lemma elite_indices_ok:
  assumes "topk_contract (topk_choice e)" and "top_candidates p \<le> length returns"
  shows "\<exists>idx. elite_indices e p returns = Inr idx \<and> length idx = top_candidates p \<and>
    distinct idx \<and> (\<forall>i \<in> set idx. i < length returns)"
proof -
  let ?r = "nan_to_zero returns"
  have k: "top_candidates p \<le> length ?r" using assms(2) by (simp add: length_nan_to_zero)
  then have "is_topk (top_candidates p) ?r (topk_choice e (top_candidates p) ?r)"
    using assms(1) unfolding topk_contract_def by blast
  then have "length (topk_choice e (top_candidates p) ?r) = top_candidates p"
    "distinct (topk_choice e (top_candidates p) ?r)"
    "\<forall>i \<in> set (topk_choice e (top_candidates p) ?r). i < length returns"
    by (simp_all add: is_topk_def length_nan_to_zero)
  moreover have "elite_indices e p returns = Inr (topk_choice e (top_candidates p) ?r)"
    using k by (simp add: elite_indices_def topk_def)
  ultimately show ?thesis by blast
qed

lemma collaborators_ok_log [simp]:
  "collaborators_ok e (p\<lparr>reward_stats := l\<rparr>) D = collaborators_ok e p D"
  by (simp add: collaborators_ok_def)

lemma cem_iteration_ok:
  assumes H: "0 < plan_horizon p" and E: "0 < ensemble_size p" and D: "0 < D"
    and K: "top_candidates p \<le> n_candidates p"
    and ok: "collaborators_ok e p D"
    and st: "is_t3 (ensemble_size p) (n_candidates p) D state"
    and am: "is_mat (plan_horizon p) (action_size p) am"
    and asd: "is_mat (plan_horizon p) (action_size p) asd"
  shows "\<exists>am' asd' l w'. cem_iteration e D state (am, asd, p, w) = Inr (am', asd', p\<lparr>reward_stats := l\<rparr>, w') \<and>
    is_mat (plan_horizon p) (action_size p) am' \<and> is_mat (plan_horizon p) (action_size p) asd'"
proof -
  let ?H = "plan_horizon p" and ?C = "n_candidates p" and ?A = "action_size p"
  obtain noise w1 where rn: "randn3 (normal_draw e) ?H ?C ?A w = (noise, w1)"
    by (cases "randn3 (normal_draw e) ?H ?C ?A w")
  have "is_t3 ?H ?C ?A (fst (randn3 (normal_draw e) ?H ?C ?A w))" by (rule randn3_shape)
  then have ns: "is_t3 ?H ?C ?A noise" using rn by simp
  let ?actions = "sample_actions am asd noise"
  have act: "is_t3 ?H ?C ?A ?actions" using am asd ns by (rule sample_actions_shape)
  from ok have eok: "ensemble_ok e (ensemble_size p) ?C D ?A" and rok: "reward_ok e D"
    and mok: "measure_ok e ?H (ensemble_size p) ?C D" and tok: "topk_contract (topk_choice e)"
    by (simp_all add: collaborators_ok_def)
  from perform_rollout_ok [OF H E st act eok, of w1] obtain states dvs dms w2 where
    pr: "perform_rollout e p state ?actions w1 = Inr (states, dvs, dms, w2)"
    and sh: "is_t4 ?H (ensemble_size p) ?C D states" "is_t4 ?H (ensemble_size p) ?C D dvs"
      "is_t4 ?H (ensemble_size p) ?C D dms"
    by blast
  from score_candidates_ok [OF H D rok mok sh, of w2] obtain returns l w3 where
    sc: "score_candidates e p D states dvs dms w2 = Inr (returns, p\<lparr>reward_stats := l\<rparr>, w3)"
    by blast
  have lr: "length returns = ?C" using sc by (rule score_candidates_length)
  from elite_indices_ok [OF tok, of p returns] K lr obtain idx where
    el: "elite_indices e p returns = Inr idx" and li: "length idx = top_candidates p"
    and ri: "\<forall>i \<in> set idx. i < ?C"
    by auto
  let ?best = "map (\<lambda>m. map ((!) m) idx) ?actions"
  from best_actions_ok [OF act ri li] have
    ba: "best_actions p ?actions idx = Inr ?best" and lb: "length ?best = ?H"
    by (simp_all add: is_t3_def)
  have "cem_iteration e D state (am, asd, p, w) =
      Inr (mean_dim1 ?A ?best, std_dim1 ?A ?best, p\<lparr>reward_stats := l\<rparr>, w3)"
    unfolding cem_iteration_def Let_def using rn pr sc el ba by (simp add: refit_def)
  moreover have "is_mat ?H ?A (mean_dim1 ?A ?best)" "is_mat ?H ?A (std_dim1 ?A ?best)"
    using lb by (simp_all only: is_mat_mean_dim1 is_mat_std_dim1)
  ultimately show ?thesis by blast
qed







lemma demo_collaborators: "collaborators_ok demo_env demo_planner 1"
proof -
  have "ensemble_ok demo_env 2 2 1 1"
    by (simp add: ensemble_ok_def demo_env_def)
  moreover have "reward_ok demo_env 1"
    by (simp add: reward_ok_def demo_env_def)
  moreover have "measure_ok demo_env 2 2 2 1"
  proof -
    have "length (hd m) = 2" if "is_t3 2 2 1 m" for m :: tensor3
      using that by (cases m) (auto simp: is_t3_def is_mat_def)
    then show ?thesis
      by (auto simp: measure_ok_def demo_env_def is_t4_def is_mat_def)
  qed
  moreover have "topk_contract (topk_choice demo_env)"
    by (simp add: demo_env_def topk_sorted_contract)
  ultimately show ?thesis
    by (simp add: collaborators_ok_def demo_planner_def)
qed



theorem nan_returns_normalised_witness:
  "nan_to_zero demo_returns ! 2 = Fin 0 \<and> length (nan_to_zero demo_returns) = 5 \<and>
   elite_indices demo_env demo_selector demo_returns = Inr [3, 1] \<and>
   Fin 0 \<le> nan_to_zero demo_returns ! 3 \<and> Fin 0 \<le> nan_to_zero demo_returns ! 1 \<and>
   (\<exists>am' asd' p' w' states dvs dms w2 scored idx.
      cem_iteration demo_env 1 demo_state
        (fst (initial_distribution demo_planner), snd (initial_distribution demo_planner), demo_planner, 0)
        = Inr (am', asd', p', w') \<and>
      score_candidates demo_env demo_planner 1 states dvs dms w2 = Inr (scored, p', w') \<and>
      length scored = n_candidates demo_planner \<and>
      topk (topk_choice demo_env) (top_candidates demo_planner) (nan_to_zero scored) = Inr idx)"
proof -
  note inst = nan_returns_normalised [of demo_returns demo_env demo_selector]
  have c: "topk_contract (topk_choice demo_env)"
    by (simp add: demo_env_def topk_sorted_contract)
  have nan: "isnan (demo_returns ! 2)" "2 < length demo_returns"
    by (simp_all add: demo_returns_def)
  from inst c demo_elite nan have "2 \<in> set [3, 1 :: nat] \<or>
      (\<forall>j \<in> set [3, 1 :: nat]. Fin 0 \<le> nan_to_zero demo_returns ! j)"
    by blast
  then have sel: "Fin 0 \<le> nan_to_zero demo_returns ! 3" "Fin 0 \<le> nan_to_zero demo_returns ! 1"
    by simp_all
  from inst nan have z: "nan_to_zero demo_returns ! 2 = Fin 0" "length (nan_to_zero demo_returns) = 5"
    by (simp_all add: demo_returns_def)
  let ?am = "fst (initial_distribution demo_planner)" and ?asd = "snd (initial_distribution demo_planner)"
  have "\<exists>am' asd' l w'. cem_iteration demo_env 1 demo_state (?am, ?asd, demo_planner, 0)
      = Inr (am', asd', demo_planner\<lparr>reward_stats := l\<rparr>, w') \<and>
    is_mat (plan_horizon demo_planner) (action_size demo_planner) am' \<and>
    is_mat (plan_horizon demo_planner) (action_size demo_planner) asd'"
  proof (rule cem_iteration_ok)
    show "collaborators_ok demo_env demo_planner 1" by (rule demo_collaborators)
    show "is_t3 (ensemble_size demo_planner) (n_candidates demo_planner) 1 demo_state"
      by (simp add: demo_planner_def demo_state_def is_t3_def is_mat_def)
    show "is_mat (plan_horizon demo_planner) (action_size demo_planner) ?am"
      "is_mat (plan_horizon demo_planner) (action_size demo_planner) ?asd"
      by (simp_all add: initial_distribution_def is_mat_def)
  qed (simp_all add: demo_planner_def)
  then obtain am' asd' p' w' where
    it: "cem_iteration demo_env 1 demo_state (?am, ?asd, demo_planner, 0) = Inr (am', asd', p', w')"
    by blast
  with nan_returns_normalised [of demo_returns demo_env demo_planner]
  have "\<exists>states dvs dms w2 scored idx.
      score_candidates demo_env demo_planner 1 states dvs dms w2 = Inr (scored, p', w') \<and>
      length scored = n_candidates demo_planner \<and>
      topk (topk_choice demo_env) (top_candidates demo_planner) (nan_to_zero scored) = Inr idx"
    by blast
  with it z sel demo_elite show ?thesis by blast
qed

section \<open>Statistics\<close>

lemma tmax_Max: "xs \<noteq> [] \<Longrightarrow> tmax xs = Max (set xs)"
proof -
  assume "xs \<noteq> []"
  then obtain a list where xs: "xs = a # list" by (cases xs) auto
  show ?thesis unfolding xs tmax_def by (simp only: Max.set_eq_fold list.sel)
qed

lemma tmin_Min: "xs \<noteq> [] \<Longrightarrow> tmin xs = (if NaN \<in> set xs then NaN else Min (set xs))"
proof -
  assume "xs \<noteq> []"
  then obtain a list where xs: "xs = a # list" by (cases xs) auto
  have "fold min (tl xs) (hd xs) = Min (set xs)"
    unfolding xs by (simp only: Min.set_eq_fold list.sel)
  moreover have "(\<exists>x \<in> set xs. isnan x) = (NaN \<in> set xs)"
  proof
    assume "\<exists>x \<in> set xs. isnan x"
    then obtain x where x: "x \<in> set xs" and "isnan x" by blast
    from \<open>isnan x\<close> have "x = NaN" by (cases x) simp_all
    with x show "NaN \<in> set xs" by simp
  next
    assume "NaN \<in> set xs"
    then show "\<exists>x \<in> set xs. isnan x" by (intro bexI [of _ NaN]) simp_all
  qed
  ultimately show ?thesis by (simp add: tmin_def)
qed

lemma stack1_ok:
  assumes "xs \<noteq> []" and "\<forall>r \<in> set xs. length r = n"
  shows "stack1 xs = Inr xs"
  using assms by (cases xs) (simp_all add: stack1_def)

lemma concat_nonempty:
  assumes "xs \<noteq> []" and "\<forall>r \<in> set xs. length r = n" and "0 < n"
  shows "concat xs \<noteq> []"
  using assms by (cases xs) auto

lemma get_stats_empty:
  "reward_stats p = [] \<Longrightarrow> get_stats e p w =
     (Inl RuntimeError, p, snd (if use_exploration p then measure_get_stats e w else (Map.empty, w)))"
  by (simp add: get_stats_def stack1_def split: prod.splits)

lemma get_stats_nonempty:
  assumes "log_ok p" and "reward_stats p \<noteq> []"
  shows "get_stats e p w =
     (Inr (fst (if use_exploration p then measure_get_stats e w else (Map.empty, w)),
           [(''max'', tmax (concat (reward_stats p))),
            (''mean'', fmean (concat (reward_stats p))),
            (''min'', tmin (concat (reward_stats p))),
            (''std'', fstd_unbiased (concat (reward_stats p)))]),
      p\<lparr>reward_stats := []\<rparr>,
      snd (if use_exploration p then measure_get_stats e w else (Map.empty, w)))"
proof -
  from assms have all: "\<forall>r \<in> set (reward_stats p). length r = n_candidates p" and n: "0 < n_candidates p"
    by (simp_all add: log_ok_def)
  have st: "stack1 (reward_stats p) = Inr (reward_stats p)"
    using assms(2) all by (rule stack1_ok)
  have ne: "concat (reward_stats p) \<noteq> []"
    using assms(2) all n by (rule concat_nonempty)
  show ?thesis
    using st by (simp add: get_stats_def Let_def ne del: concat_eq_Nil_conv split: prod.splits)
qed


text \<open>
  Claim C8. On a planner whose log is as \<open>forward\<close> leaves it, the reward log is empty
  after \<open>get_stats\<close> and nothing else of the planner has changed. On an empty log the
  call raises (and the log stays empty). On a non-empty log it returns the statistics of
  the measure, or the empty mapping when exploration is disabled, and the maximum, mean,
  minimum and sample standard deviation of all logged rewards, flattened; maximum and
  minimum are NaN when a logged reward is.
\<close>

theorem get_stats_drains:
  assumes "log_ok p"
  shows "reward_stats (fst (snd (get_stats e p w))) = [] \<and>
    fst (snd (get_stats e p w)) = p\<lparr>reward_stats := []\<rparr> \<and>
    (reward_stats p = [] \<longrightarrow> fst (get_stats e p w) = Inl RuntimeError) \<and>
    (reward_stats p \<noteq> [] \<longrightarrow>
       (let logged = concat (reward_stats p) in
          fst (get_stats e p w) =
            Inr (if use_exploration p then fst (measure_get_stats e w) else Map.empty,
                 [(''max'', tmax logged), (''mean'', fmean logged),
                  (''min'', tmin logged), (''std'', fstd_unbiased logged)]) \<and>
          tmax logged = Max (set logged) \<and>
          tmin logged = (if NaN \<in> set logged then NaN else Min (set logged)) \<and>
          fmean logged = fdiv_count (fsum logged) (length logged) \<and>
          fstd_unbiased logged =
            fsqrt (fdiv_count (fsum (map (sq_dev (fmean logged)) logged)) (length logged - 1))))"
proof (cases "reward_stats p = []")
  case True
  then have "p\<lparr>reward_stats := []\<rparr> = p" by (cases p) simp
  then show ?thesis using True by (simp add: get_stats_empty)
next
  case False
  have ne: "concat (reward_stats p) \<noteq> []"
    using False assms unfolding log_ok_def by (intro concat_nonempty) auto
  show ?thesis
    using False ne
    by (simp add: get_stats_nonempty [OF assms False] Let_def tmax_Max tmin_Min fmean_def
        fstd_unbiased_def)
qed

theorem get_stats_drains_witness:
  "log_ok demo_logged \<and>
   reward_stats (fst (snd (get_stats demo_env demo_logged 0))) = [] \<and>
   fst (get_stats demo_env demo_logged 0) =
     Inr (Map.empty,
          [(''max'', Fin 6), (''mean'', Fin 3), (''min'', Fin 1), (''std'', Fin (sqrt (14 / 3)))]) \<and>
   log_ok demo_planner \<and>
   reward_stats (fst (snd (get_stats demo_env demo_planner 0))) = [] \<and>
   fst (get_stats demo_env demo_planner 0) = Inl RuntimeError"
proof -
  have l1: "log_ok demo_logged" and l2: "log_ok demo_planner"
    by (simp_all add: log_ok_def demo_logged_def demo_planner_def)
  have logged: "concat (reward_stats demo_logged) = [Fin 1, Fin 3, Fin 2, Fin 6]"
    "reward_stats demo_logged \<noteq> []" "\<not> use_exploration demo_logged"
    by (simp_all add: demo_logged_def)
  have vals: "tmax [Fin 1, Fin 3, Fin 2, Fin 6] = Fin 6" "tmin [Fin 1, Fin 3, Fin 2, Fin 6] = Fin 1"
    "fmean [Fin 1, Fin 3, Fin 2, Fin 6] = Fin 3"
    "fstd_unbiased [Fin 1, Fin 3, Fin 2, Fin 6] = Fin (sqrt (14 / 3))"
    by (simp_all add: tmax_def tmin_def fmean_def fsum_def fstd_unbiased_def sq_dev_def fsub_def)
  have "reward_stats demo_planner = []" by (simp add: demo_planner_def)
  with get_stats_drains [OF l1, of demo_env 0] get_stats_drains [OF l2, of demo_env 0] l1 l2 logged
  show ?thesis
    by (simp add: Let_def vals)
qed

section \<open>Rewards\<close>

lemma length_chunks: "length (chunks k n xs) = k"
  by (induction k arbitrary: xs) simp_all

lemma chunks_nth: "i < k \<Longrightarrow> chunks k n xs ! i = take n (drop (i * n) xs)"
proof (induction k arbitrary: i xs)
  case 0
  then show ?case by simp
next
  case (Suc k)
  show ?case
  proof (cases i)
    case 0
    then show ?thesis by simp
  next
    case (Suc j)
    then have "j < k" using Suc.prems by simp
    then have "chunks k n (drop n xs) ! j = take n (drop (j * n) (drop n xs))"
      by (rule Suc.IH)
    then show ?thesis using Suc by (simp add: add.commute)
  qed
qed

lemma flat_index: "m < e \<Longrightarrow> j < c \<Longrightarrow> m * c + j < e * (c::nat)"
proof -
  assume "m < e" "j < c"
  then have "m * c + j < m * c + c" by simp
  also have "\<dots> = Suc m * c" by simp
  also have "\<dots> \<le> e * c" using \<open>m < e\<close> by (intro mult_le_mono1) simp
  finally show ?thesis .
qed

lemma view3_nth:
  assumes len: "length xs = h * e * c" and t: "t < h" and m: "m < e" and j: "j < c"
  shows "map (chunks e c) (chunks h (e * c) xs) ! t ! m ! j = xs ! ((t * e + m) * c + j)"
proof -
  let ?blk = "take (e * c) (drop (t * (e * c)) xs)"
  have in_blk: "m * c + j < e * c" using m j by (rule flat_index)
  have tl: "t * (e * c) + e * c \<le> length xs"
  proof -
    have "Suc t * (e * c) \<le> h * (e * c)" using t by (intro mult_le_mono1) simp
    then show ?thesis using len by (simp add: mult.assoc)
  qed
  have lb: "length ?blk = e * c" using tl by simp
  have "map (chunks e c) (chunks h (e * c) xs) ! t = chunks e c ?blk"
    using t by (simp add: length_chunks chunks_nth)
  also have "\<dots> ! m = take c (drop (m * c) ?blk)"
    using m by (rule chunks_nth)
  finally have "map (chunks e c) (chunks h (e * c) xs) ! t ! m ! j = drop (m * c) ?blk ! j"
    using j by simp
  also have "\<dots> = ?blk ! (m * c + j)"
  proof (rule nth_drop)
    have "m * c \<le> m * c + j" by simp
    also have "\<dots> \<le> e * c" using in_blk by simp
    finally show "m * c \<le> length ?blk" by (simp only: lb)
  qed
  also have "\<dots> = drop (t * (e * c)) xs ! (m * c + j)"
    using in_blk by simp
  also have "\<dots> = xs ! (t * (e * c) + (m * c + j))"
    using tl by (intro nth_drop) simp
  also have "t * (e * c) + (m * c + j) = (t * e + m) * c + j"
    by (simp add: algebra_simps)
  finally show ?thesis .
qed

lemma concat_nth:
  assumes "\<forall>xs \<in> set xss. length xs = n" and "i < length xss" and "j < n"
  shows "concat xss ! (i * n + j) = xss ! i ! j"
  using assms
proof (induction xss arbitrary: i)
  case Nil
  then show ?case by simp
next
  case (Cons xs xss)
  show ?case
  proof (cases i)
    case 0
    then show ?thesis using Cons.prems by (simp add: nth_append)
  next
    case (Suc k)
    then have "concat xss ! (k * n + j) = xss ! k ! j"
      using Cons.prems by (intro Cons.IH) simp_all
    then show ?thesis using Suc Cons.prems by (simp add: nth_append)
  qed
qed

lemma flat_rows_nth:
  assumes st: "is_t4 h e c d states" and t: "t < h" and m: "m < e" and j: "j < c"
  shows "concat (concat states) ! ((t * e + m) * c + j) = states ! t ! m ! j"
proof -
  have s3: "is_t3 (h * e) c d (concat states)" using st by (rule concat_t4)
  have idx: "t * e + m < h * e" using t m by (rule flat_index)
  have "concat (concat states) ! ((t * e + m) * c + j) = concat states ! (t * e + m) ! j"
    using s3 idx j by (intro concat_nth) (simp_all add: is_t3_def is_mat_def)
  also have "concat states ! (t * e + m) = states ! t ! m"
    using st t m by (intro concat_nth) (simp_all add: is_t4_def is_t3_def)
  finally show ?thesis .
qed

lemma map_by_index: "map f xs = map (\<lambda>i. f (xs ! i)) [0..<length xs]"
proof -
  have "map f xs = map f (map (\<lambda>i. xs ! i) [0..<length xs])"
    by (simp only: map_nth)
  then show ?thesis by (simp add: comp_def)
qed

lemma view_rows_Inr: "view_rows d xs = Inr rows \<Longrightarrow> 0 < d"
  by (auto simp: view_rows_def split: if_splits)

lemma view3_Inr:
  "view3 h e c xs = Inr x \<Longrightarrow> length xs = h * e * c \<and> x = map (chunks e c) (chunks h (e * c) xs)"
  by (auto simp: view3_def split: if_splits)

lemma candidate_rewards_Inr:
  assumes st: "is_t4 (plan_horizon p) (ensemble_size p) (n_candidates p) sz states"
    and cr: "candidate_rewards e p sz states = Inr rewards"
  shows "length (reward_model e (concat (concat states)))
        = plan_horizon p * ensemble_size p * n_candidates p \<and>
    length rewards = n_candidates p \<and>
    (\<forall>c < n_candidates p.
       rewards ! c = fsum (map (\<lambda>t. fmean (map (\<lambda>m.
           reward_model e (concat (concat states)) ! ((t * ensemble_size p + m) * n_candidates p + c))
         [0..<ensemble_size p])) [0..<plan_horizon p]))"
proof -
  let ?H = "plan_horizon p" and ?E = "ensemble_size p" and ?C = "n_candidates p"
  let ?rows = "concat (concat states)"
  let ?rw = "reward_model e ?rows"
  from cr obtain rows rt where vr: "view_rows sz (concat (concat (concat states))) = Inr rows"
    and v3: "view3 ?H ?E ?C (reward_model e rows) = Inr rt"
    and rew: "rewards = sum_dim0 ?C (mean_dim1 ?C rt)"
    unfolding candidate_rewards_def by (auto split: sum.splits)
  have sz: "0 < sz" using vr by (rule view_rows_Inr)
  have "is_t3 (?H * ?E) ?C sz (concat states)" using st by (rule concat_t4)
  then have "is_mat (?H * ?E * ?C) sz ?rows" by (rule concat_t3)
  then have "\<forall>r \<in> set ?rows. length r = sz" by (simp add: is_mat_def)
  with sz have "view_rows sz (concat ?rows) = Inr ?rows" by (rule view_rows_concat)
  with vr have rows: "rows = ?rows" by simp
  from v3 have len: "length ?rw = ?H * ?E * ?C"
    and rt: "rt = map (chunks ?E ?C) (chunks ?H (?E * ?C) ?rw)"
    unfolding rows by (auto dest: view3_Inr)
  have lrt: "length rt = ?H" by (simp add: rt length_chunks)
  have lrow: "length (rt ! t) = ?E" if "t < ?H" for t
    using that by (simp add: rt length_chunks)
  have entry: "rewards ! c = fsum (map (\<lambda>t. fmean (map (\<lambda>m. ?rw ! ((t * ?E + m) * ?C + c))
         [0..<?E])) [0..<?H])" if c: "c < ?C" for c
  proof -
    have "rewards ! c = fsum (column c (mean_dim1 ?C rt))"
      using c by (simp add: rew sum_dim0_def reduce_cols_nth)
    also have "column c (mean_dim1 ?C rt) = map (\<lambda>x. fmean (column c x)) rt"
      using c by (simp add: column_def mean_dim1_def reduce_cols_nth)
    also have "\<dots> = map (\<lambda>t. fmean (column c (rt ! t))) [0..<?H]"
      by (simp only: map_by_index [of _ rt] lrt)
    also have "\<dots> = map (\<lambda>t. fmean (map (\<lambda>m. ?rw ! ((t * ?E + m) * ?C + c)) [0..<?E])) [0..<?H]"
    proof (rule map_cong [OF refl])
      fix t assume "t \<in> set [0..<?H]"
      then have t: "t < ?H" by simp
      have "column c (rt ! t) = map (\<lambda>m. rt ! t ! m ! c) [0..<?E]"
        unfolding column_def by (simp only: map_by_index [of _ "rt ! t"] lrow [OF t])
      also have "\<dots> = map (\<lambda>m. ?rw ! ((t * ?E + m) * ?C + c)) [0..<?E]"
      proof (rule map_cong [OF refl])
        fix m assume "m \<in> set [0..<?E]"
        then have "m < ?E" by simp
        with len t c show "rt ! t ! m ! c = ?rw ! ((t * ?E + m) * ?C + c)"
          unfolding rt by (intro view3_nth)
      qed
      finally show "fmean (column c (rt ! t)) = fmean (map (\<lambda>m. ?rw ! ((t * ?E + m) * ?C + c)) [0..<?E])"
        by simp
    qed
    finally show ?thesis .
  qed
  have "length rewards = ?C" by (simp add: rew sum_dim0_def length_reduce_cols)
  with len entry show ?thesis by blast
qed

lemma score_candidates_reward:
  assumes ur: "use_reward p"
    and sc: "score_candidates e p sz states dvs dms w = Inr (returns, p', w')"
  shows "\<exists>base rewards.
    (if use_exploration p
     then exploration_returns e p dms dvs (replicate (n_candidates p) (Fin 0)) w
     else Inr (replicate (n_candidates p) (Fin 0), w)) = Inr (base, w') \<and>
    length base = n_candidates p \<and>
    candidate_rewards e p sz states = Inr rewards \<and>
    iadd base rewards = Inr returns \<and>
    p' = p\<lparr>reward_stats := reward_stats p @ [rewards]\<rparr>"
proof -
  let ?z = "replicate (n_candidates p) (Fin 0)"
  obtain base w1 where base:
    "(if use_exploration p then exploration_returns e p dms dvs ?z w else Inr (?z, w)) = Inr (base, w1)"
    using sc unfolding score_candidates_def Let_def
    by (cases "if use_exploration p then exploration_returns e p dms dvs ?z w else Inr (?z, w)") auto
  then have lb: "length base = n_candidates p"
    by (auto split: if_splits dest: exploration_returns_length)
  from sc base ur obtain rewards where "candidate_rewards e p sz states = Inr rewards"
    "iadd base rewards = Inr returns" "p' = p\<lparr>reward_stats := reward_stats p @ [rewards]\<rparr>" "w' = w1"
    unfolding score_candidates_def Let_def by (auto split: sum.splits)
  with base lb show ?thesis by blast
qed


lemma demo_rewards:
  "candidate_rewards demo_env demo_planner 1 demo_states = Inr [Fin 6, Fin 12]"
  by (simp add: candidate_rewards_def demo_env_def demo_planner_def demo_states_def
      view_rows_def view3_def numeral_2_eq_2 sum_dim0_def mean_dim1_def reduce_cols_def
      column_def fsum_def fmean_def upt_rec [of 0] upt_rec [of 1])

lemma demo_exploration:
  "exploration_returns demo_env demo_planner demo_deltas demo_deltas [Fin 0, Fin 0] 2
     = Inr ([Fin 3, Fin 6], 3)"
  by (simp add: exploration_returns_def demo_env_def demo_planner_def demo_deltas_def
      width_def sum_dim0_def reduce_cols_def column_def fsum_def iadd_def
      upt_rec [of 0] upt_rec [of 1])

lemma demo_score:
  "score_candidates demo_env demo_planner 1 demo_states demo_deltas demo_deltas 2
     = Inr ([Fin 9, Fin 18], demo_planner\<lparr>reward_stats := [[Fin 6, Fin 12]]\<rparr>, 3)"
proof -
  have "replicate (n_candidates demo_planner) (Fin 0) = [Fin 0, Fin 0]"
    by (simp add: demo_planner_def numeral_2_eq_2)
  moreover have "use_exploration demo_planner" "use_reward demo_planner" "reward_stats demo_planner = []"
    by (simp_all add: demo_planner_def)
  moreover have "candidate_rewards demo_env demo_planner (Suc 0) demo_states = Inr [Fin 6, Fin 12]"
    using demo_rewards by simp
  ultimately show ?thesis
    by (simp add: score_candidates_def demo_exploration iadd_def)
qed

lemma candidate_rewards_length:
  "candidate_rewards e p sz states = Inr rewards \<Longrightarrow> length rewards = n_candidates p"
  by (auto simp: candidate_rewards_def sum_dim0_def length_reduce_cols split: sum.splits)

lemma cem_iteration_log:
  assumes "cem_iteration e sz state (am, asd, p, w) = Inr (am', asd', p', w')"
  shows "if use_reward p
         then \<exists>rewards. length rewards = n_candidates p \<and>
                p' = p\<lparr>reward_stats := reward_stats p @ [rewards]\<rparr>
         else p' = p"
proof -
  from cem_iteration_Inr [OF assms] obtain states dvs dms w2 returns where
    sc: "score_candidates e p sz states dvs dms w2 = Inr (returns, p', w')"
    by blast
  show ?thesis
  proof (cases "use_reward p")
    case True
    from score_candidates_reward [OF True sc] obtain rewards where
      "candidate_rewards e p sz states = Inr rewards"
      "p' = p\<lparr>reward_stats := reward_stats p @ [rewards]\<rparr>"
      by blast
    then show ?thesis using True by (auto dest: candidate_rewards_length)
  next
    case False
    then have "p' = p"
      using sc unfolding score_candidates_def Let_def by (auto split: sum.splits)
    then show ?thesis using False by simp
  qed
qed

lemma cem_iteration_log_ok:
  assumes "cem_iteration e sz state (am, asd, p, w) = Inr (am', asd', p', w')" and "log_ok p"
  shows "log_ok p'"
  using cem_iteration_log [OF assms(1)] assms(2)
  by (cases "use_reward p") (auto simp: log_ok_def)

lemma cem_loop_log_ok:
  assumes "cem_loop e sz state n (am, asd, p, w) = Inr (am', asd', p', w')" and "log_ok p"
  shows "log_ok p'"
  using assms
proof (induction n arbitrary: am asd p w)
  case 0
  then show ?case by simp
next
  case (Suc n)
  from Suc.prems(1) obtain am1 asd1 p1 w1 where
    it: "cem_iteration e sz state (am, asd, p, w) = Inr (am1, asd1, p1, w1)"
    and rest: "cem_loop e sz state n (am1, asd1, p1, w1) = Inr (am', asd', p', w')"
    by (auto split: sum.splits)
  have "log_ok p1" using it Suc.prems(2) by (rule cem_iteration_log_ok)
  with rest show ?case by (rule Suc.IH)
qed

lemma forward_log_ok:
  assumes "forward e p state w = Inr (v, p', w')" and "log_ok p"
  shows "log_ok p'"
proof -
  from assms(1) obtain am asd where
    "cem_loop e (length state) (initial_state p state) (optimisation_iters p)
       (fst (initial_distribution p), snd (initial_distribution p), p, w) = Inr (am, asd, p', w')"
    unfolding forward_def optimise_def by (auto split: sum.splits list.splits prod.splits)
  then show ?thesis using assms(2) by (rule cem_loop_log_ok)
qed

text \<open>
  Claim C6. With reward scoring enabled and simulated states of shape \<open>(H, E, C, D)\<close>,
  scoring that returns has computed one reward per candidate: for candidate \<open>c\<close> the
  sum over the timesteps of the mean over the members of the reward model's output for
  the row of the flattened states that holds the state of \<open>(t, m, c)\<close>; for a reward
  model that scores each row on its own by \<open>r\<close>, that is the sum over \<open>t\<close> of the mean
  over \<open>m\<close> of \<open>r (states ! t ! m ! c)\<close>. The return of a candidate is its return
  before this step plus this reward, and exactly this vector is appended to the log. An
  iteration that returns has appended one vector to the log, with one entry per
  candidate.
\<close>

theorem reward_contribution:
  assumes "use_reward p"
    and "is_t4 (plan_horizon p) (ensemble_size p) (n_candidates p) state_size states"
    and "score_candidates e p state_size states delta_vars delta_means w = Inr (returns, p', w')"
  shows "(\<exists>base rewards.
    (if use_exploration p
     then exploration_returns e p delta_means delta_vars (replicate (n_candidates p) (Fin 0)) w
     else Inr (replicate (n_candidates p) (Fin 0), w)) = Inr (base, w') \<and>
    length base = n_candidates p \<and> length rewards = n_candidates p \<and>
    length returns = n_candidates p \<and>
    (\<forall>c < n_candidates p.
       rewards ! c = fsum (map (\<lambda>t. fmean (map (\<lambda>m.
           reward_model e (concat (concat states)) ! ((t * ensemble_size p + m) * n_candidates p + c))
         [0..<ensemble_size p])) [0..<plan_horizon p]) \<and>
       returns ! c = fadd (base ! c) (rewards ! c)) \<and>
    (\<forall>t < plan_horizon p. \<forall>m < ensemble_size p. \<forall>c < n_candidates p.
       concat (concat states) ! ((t * ensemble_size p + m) * n_candidates p + c) = states ! t ! m ! c) \<and>
    reward_stats p' = reward_stats p @ [rewards] \<and>
    (\<forall>r. reward_model e = map r \<longrightarrow>
       (\<forall>c < n_candidates p.
          rewards ! c = fsum (map (\<lambda>t. fmean (map (\<lambda>m. r (states ! t ! m ! c))
            [0..<ensemble_size p])) [0..<plan_horizon p])))) \<and>
    (\<forall>sz state am asd w0 am' asd' q w1.
       cem_iteration e sz state (am, asd, p, w0) = Inr (am', asd', q, w1) \<longrightarrow>
       (\<exists>logged. length logged = n_candidates p \<and>
          q = p\<lparr>reward_stats := reward_stats p @ [logged]\<rparr>))"
proof -
  let ?H = "plan_horizon p" and ?E = "ensemble_size p" and ?C = "n_candidates p"
  let ?rows = "concat (concat states)"
  from score_candidates_reward [OF assms(1,3)] obtain base rewards where
    base: "(if use_exploration p
      then exploration_returns e p delta_means delta_vars (replicate ?C (Fin 0)) w
      else Inr (replicate ?C (Fin 0), w)) = Inr (base, w')"
    and lb: "length base = ?C"
    and cr: "candidate_rewards e p state_size states = Inr rewards"
    and ia: "iadd base rewards = Inr returns"
    and p': "p' = p\<lparr>reward_stats := reward_stats p @ [rewards]\<rparr>"
    by blast
  from candidate_rewards_Inr [OF assms(2) cr] have
    len: "length (reward_model e ?rows) = ?H * ?E * ?C" and lr: "length rewards = ?C"
    and entry: "\<And>c. c < ?C \<Longrightarrow>
       rewards ! c = fsum (map (\<lambda>t. fmean (map (\<lambda>m.
           reward_model e ?rows ! ((t * ?E + m) * ?C + c)) [0..<?E])) [0..<?H])"
    by simp_all
  have ret: "returns = map2 fadd base rewards"
    using ia lb lr by (simp add: iadd_def)
  then have lret: "length returns = ?C" using lb lr by simp
  have sum: "returns ! c = fadd (base ! c) (rewards ! c)" if "c < ?C" for c
    using that lb lr by (simp add: ret)
  have rows: "?rows ! ((t * ?E + m) * ?C + c) = states ! t ! m ! c"
    if "t < ?H" "m < ?E" "c < ?C" for t m c
    using assms(2) that by (rule flat_rows_nth)
  have rowwise: "rewards ! c = fsum (map (\<lambda>t. fmean (map (\<lambda>m. r (states ! t ! m ! c)) [0..<?E])) [0..<?H])"
    if r: "reward_model e = map r" and c: "c < ?C" for r c
  proof -
    have lrows: "length ?rows = ?H * ?E * ?C" using len by (simp add: r)
    have "reward_model e ?rows ! ((t * ?E + m) * ?C + c) = r (states ! t ! m ! c)"
      if "t < ?H" "m < ?E" for t m
    proof -
      have "t * ?E + m < ?H * ?E" using that by (rule flat_index)
      then have "(t * ?E + m) * ?C + c < ?H * ?E * ?C" using c by (rule flat_index)
      then show ?thesis using lrows rows [OF that c] by (simp add: r)
    qed
    then have eq: "map (\<lambda>t. fmean (map (\<lambda>m. reward_model e ?rows ! ((t * ?E + m) * ?C + c)) [0..<?E])) [0..<?H]
        = map (\<lambda>t. fmean (map (\<lambda>m. r (states ! t ! m ! c)) [0..<?E])) [0..<?H]"
      by (intro map_cong [OF refl] arg_cong [of _ _ fmean]) simp
    show ?thesis by (simp only: entry [OF c] eq)
  qed
  have once: "\<exists>logged. length logged = ?C \<and> q = p\<lparr>reward_stats := reward_stats p @ [logged]\<rparr>"
    if "cem_iteration e sz state (am, asd, p, w0) = Inr (am', asd', q, w1)"
    for sz state am asd w0 am' asd' q w1
    using cem_iteration_log [OF that] assms(1) by simp
  show ?thesis
  proof (intro conjI allI impI)
    show "\<exists>logged. length logged = ?C \<and> q = p\<lparr>reward_stats := reward_stats p @ [logged]\<rparr>"
      if "cem_iteration e sz state (am, asd, p, w0) = Inr (am', asd', q, w1)"
      for sz state am asd w0 am' asd' q w1
      using that by (rule once)
  next
    show "\<exists>base rewards.
      (if use_exploration p
       then exploration_returns e p delta_means delta_vars (replicate ?C (Fin 0)) w
       else Inr (replicate ?C (Fin 0), w)) = Inr (base, w') \<and>
      length base = ?C \<and> length rewards = ?C \<and> length returns = ?C \<and>
      (\<forall>c < ?C.
         rewards ! c = fsum (map (\<lambda>t. fmean (map (\<lambda>m.
             reward_model e (concat (concat states)) ! ((t * ?E + m) * ?C + c))
           [0..<?E])) [0..<?H]) \<and>
         returns ! c = fadd (base ! c) (rewards ! c)) \<and>
      (\<forall>t < ?H. \<forall>m < ?E. \<forall>c < ?C.
         concat (concat states) ! ((t * ?E + m) * ?C + c) = states ! t ! m ! c) \<and>
      reward_stats p' = reward_stats p @ [rewards] \<and>
      (\<forall>r. reward_model e = map r \<longrightarrow>
         (\<forall>c < ?C.
            rewards ! c = fsum (map (\<lambda>t. fmean (map (\<lambda>m. r (states ! t ! m ! c))
              [0..<?E])) [0..<?H])))"
      using base lb lr lret entry sum rows rowwise p'
      by (intro exI [of _ base] exI [of _ rewards]) simp
  qed
qed

theorem reward_contribution_witness:
  "\<exists>base rewards.
     exploration_returns demo_env demo_planner demo_deltas demo_deltas [Fin 0, Fin 0] 2
       = Inr (base, 3) \<and>
     rewards = [Fin 6, Fin 12] \<and>
     [Fin 9, Fin 18] ! 0 = fadd (base ! 0) (rewards ! 0) \<and>
     [Fin 9, Fin 18] ! 1 = fadd (base ! 1) (rewards ! 1) \<and>
     rewards ! 0 = fsum (map (\<lambda>t. fmean (map (\<lambda>m. fsum (demo_states ! t ! m ! 0)) [0..<2])) [0..<2]) \<and>
     rewards ! 1 = fsum (map (\<lambda>t. fmean (map (\<lambda>m. fsum (demo_states ! t ! m ! 1)) [0..<2])) [0..<2])"
proof -
  have ur: "use_reward demo_planner" by (simp add: demo_planner_def)
  have st: "is_t4 (plan_horizon demo_planner) (ensemble_size demo_planner)
      (n_candidates demo_planner) 1 demo_states"
    by (simp add: demo_planner_def demo_states_def is_t4_def is_t3_def is_mat_def)
  have cfg: "use_exploration demo_planner" "n_candidates demo_planner = 2"
    "ensemble_size demo_planner = 2" "plan_horizon demo_planner = 2" "reward_stats demo_planner = []"
    by (simp_all add: demo_planner_def)
  have rm: "reward_model demo_env = map fsum" by (simp add: demo_env_def)
  from reward_contribution [OF ur st demo_score, THEN conjunct1] obtain base rewards where
    b: "(if use_exploration demo_planner
         then exploration_returns demo_env demo_planner demo_deltas demo_deltas
                (replicate (n_candidates demo_planner) (Fin 0)) 2
         else Inr (replicate (n_candidates demo_planner) (Fin 0), 2)) = Inr (base, 3)"
    and sum: "\<And>c. c < n_candidates demo_planner \<Longrightarrow>
         [Fin 9, Fin 18] ! c = fadd (base ! c) (rewards ! c)"
    and log: "reward_stats (demo_planner\<lparr>reward_stats := [[Fin 6, Fin 12]]\<rparr>)
         = reward_stats demo_planner @ [rewards]"
    and rowwise: "\<And>r c. reward_model demo_env = map r \<Longrightarrow> c < n_candidates demo_planner \<Longrightarrow>
         rewards ! c = fsum (map (\<lambda>t. fmean (map (\<lambda>m. r (demo_states ! t ! m ! c))
            [0..<ensemble_size demo_planner])) [0..<plan_horizon demo_planner])"
    by blast
  have "exploration_returns demo_env demo_planner demo_deltas demo_deltas [Fin 0, Fin 0] 2
       = Inr (base, 3)"
    using b cfg by (simp add: numeral_2_eq_2)
  moreover have "rewards = [Fin 6, Fin 12]" using log cfg by simp
  moreover have "[Fin 9, Fin 18] ! 0 = fadd (base ! 0) (rewards ! 0)"
    "[Fin 9, Fin 18] ! 1 = fadd (base ! 1) (rewards ! 1)"
    using sum [of 0] sum [of 1] cfg by simp_all
  moreover have
    "rewards ! 0 = fsum (map (\<lambda>t. fmean (map (\<lambda>m. fsum (demo_states ! t ! m ! 0)) [0..<2])) [0..<2])"
    "rewards ! 1 = fsum (map (\<lambda>t. fmean (map (\<lambda>m. fsum (demo_states ! t ! m ! 1)) [0..<2])) [0..<2])"
    using rowwise [OF rm, of 0] rowwise [OF rm, of 1] cfg by simp_all
  ultimately show ?thesis by blast
qed

section \<open>Refitting the distribution\<close>

























lemma distribution_ok_log [simp]:
  "distribution_ok (p\<lparr>reward_stats := l\<rparr>) am asd = distribution_ok p am asd"
  by (simp add: distribution_ok_def)













section \<open>When every candidate is elite\<close>

















end
